theory Spec2Isabelle
  imports Main "HOL-Library.AList"
begin

section \<open>FormTrack content script: the capture engine\<close>

text \<open>
  A shallow embedding of the content script of the FormTrack extension (the first, current
  copy of the script in \<^verbatim>\<open>src/unnamed/part_001\<close>, lines 1 to 1227). JavaScript strings are
  modelled as \<^typ>\<open>string\<close> and the case conversions act on the ASCII letters; the members
  an object used as a dictionary (\<^verbatim>\<open>formData\<close>) has of its own are an association list in
  insertion order, with \<^const>\<open>AList.update\<close> for the creation or change of a member. Beside
  them the model keeps what the script can observe of the prototype of such an object: the
  properties a read inherits, and the fate of an assignment to \<^verbatim>\<open>__proto__\<close>. The list
  stands for the mapping. Where the order of enumeration matters to the script, in its loops
  over \<^verbatim>\<open>Object.keys(parsed)\<close>, the model follows \<^verbatim>\<open>Object.keys\<close> (array indices first, in
  ascending order); a mapping the script has filled is only counted and sent, and its list
  is left in insertion order.

  Effects are results: a function that sends messages returns the list of submissions it
  hands to \<^verbatim>\<open>safeSendMessage\<close>, a function that sets timers returns their delays and tasks,
  and a wrapped host primitive returns in addition the calls it makes to the original and
  the way it ends. A \<^verbatim>\<open>try\<close> block is a value of a sum type whose left side is the
  exception. What the script reads from the page at a later moment (a retry, a timer) is an
  input of that moment.
\<close>

subsection \<open>Strings\<close>

definition ascii_upper :: string where
  "ascii_upper = ''ABCDEFGHIJKLMNOPQRSTUVWXYZ''"

definition ascii_lower :: string where
  "ascii_lower = ''abcdefghijklmnopqrstuvwxyz''"

definition toLowerCase_char :: "char \<Rightarrow> char" where
  "toLowerCase_char c = (case map_of (zip ascii_upper ascii_lower) c of Some l \<Rightarrow> l | None \<Rightarrow> c)"

definition toUpperCase_char :: "char \<Rightarrow> char" where
  "toUpperCase_char c = (case map_of (zip ascii_lower ascii_upper) c of Some u \<Rightarrow> u | None \<Rightarrow> c)"

definition toLowerCase :: "string \<Rightarrow> string" where
  "toLowerCase s = map toLowerCase_char s"

definition toUpperCase :: "string \<Rightarrow> string" where
  "toUpperCase s = map toUpperCase_char s"

text \<open>\<^verbatim>\<open>s.startsWith(p)\<close> and \<^verbatim>\<open>s.includes(sub)\<close>.\<close>

fun startsWith :: "string \<Rightarrow> string \<Rightarrow> bool" where
  "startsWith s [] = True"
| "startsWith [] (p # ps) = False"
| "startsWith (c # cs) (p # ps) = (c = p \<and> startsWith cs ps)"

fun str_includes :: "string \<Rightarrow> string \<Rightarrow> bool" where
  "str_includes [] sub = (sub = [])"
| "str_includes (c # cs) sub = (startsWith (c # cs) sub \<or> str_includes cs sub)"

text \<open>Decimal rendering of a non-negative integer, as a template literal prints it.\<close>

definition digit_char :: "nat \<Rightarrow> char" where
  "digit_char d = ''0123456789'' ! d"

function decimal :: "nat \<Rightarrow> string" where
  "decimal n = (if n < 10 then [digit_char n] else decimal (n div 10) @ [digit_char (n mod 10)])"
  by pat_completeness auto
termination
  by (relation "measure (\<lambda>n. n)") auto

subsection \<open>JavaScript values and dictionary objects\<close>

text \<open>
  The values that reach a field mapping: strings, arrays, and whatever \<^verbatim>\<open>JSON.parse\<close> or a
  \<^verbatim>\<open>FormData\<close> entry delivers. A number keeps its JSON lexeme; \<open>JFile\<close> is a \<^verbatim>\<open>File\<close> entry
  of a \<^verbatim>\<open>FormData\<close>, named by its file name; \<open>JBuiltin\<close> is a function or object of the
  language that a property read finds on a prototype, named by its path
  (\<open>JBuiltin ''Object.prototype.constructor''\<close> is the function \<^verbatim>\<open>Object\<close>).
\<close>

datatype jsval =
    JUndefined
  | JNull
  | JBool bool
  | JNum string
  | JStr string
  | JArr "jsval list"
  | JObj "(string \<times> jsval) list"
  | JFile string
  | JBuiltin string

type_synonym fields = "(string \<times> jsval) list"

text \<open>
  A number is falsy when it is zero as a double. Its lexeme denotes \<open>m * 10 ^ scale\<close>,
  where \<open>m\<close> is the integer written by the digits of the whole and the fraction part
  together and \<open>scale\<close> is the exponent less the number of fraction digits. That is zero when \<open>m\<close> is, and rounds to
  zero when it is at most \<open>2 ^ -1075\<close>, half of the smallest positive double.
\<close>

definition is_digit :: "char \<Rightarrow> bool" where
  "is_digit c = (c \<in> set ''0123456789'')"

definition digit_value :: "char \<Rightarrow> nat" where
  "digit_value c =
     (case map_of (zip ''0123456789'' [0, 1, 2, 3, 4, 5, 6, 7, 8, 9]) c of
        Some d \<Rightarrow> d
      | None \<Rightarrow> 0)"

definition digits_value :: "string \<Rightarrow> nat" where
  "digits_value ds = foldl (\<lambda>n c. 10 * n + digit_value c) 0 ds"

definition signed_value :: "string \<Rightarrow> int" where
  "signed_value ds =
     (if startsWith ds ''-'' then - int (digits_value (tl ds))
      else if startsWith ds ''+'' then int (digits_value (tl ds))
      else int (digits_value ds))"

definition num_is_zero :: "string \<Rightarrow> bool" where
  "num_is_zero lexeme =
     (let unsigned = (if startsWith lexeme ''-'' then tl lexeme else lexeme);
          mantissa = takeWhile (\<lambda>c. c \<noteq> CHR ''e'' \<and> c \<noteq> CHR ''E'') unsigned;
          exponent = drop (Suc (length mantissa)) unsigned;
          whole = takeWhile (\<lambda>c. c \<noteq> CHR ''.'') mantissa;
          fraction = drop (Suc (length whole)) mantissa;
          m = digits_value (whole @ fraction);
          scale = signed_value exponent - int (length fraction)
      in if m = 0 then True
         else if 0 \<le> scale then False
         else m * 2 ^ 1075 \<le> 10 ^ nat (- scale))"

fun truthy :: "jsval \<Rightarrow> bool" where
  "truthy JUndefined = False"
| "truthy JNull = False"
| "truthy (JBool b) = b"
| "truthy (JNum lexeme) = (\<not> num_is_zero lexeme)"
| "truthy (JStr s) = (s \<noteq> [])"
| "truthy (JArr xs) = True"
| "truthy (JObj kvs) = True"
| "truthy (JFile f) = True"
| "truthy (JBuiltin p) = True"

text \<open>
  \<^verbatim>\<open>obj[k]\<close> on the members an object has of its own: the stored value, or \<^verbatim>\<open>undefined\<close>.
\<close>

definition get_prop :: "fields \<Rightarrow> string \<Rightarrow> jsval" where
  "get_prop obj k = (case map_of obj k of Some v \<Rightarrow> v | None \<Rightarrow> JUndefined)"

text \<open>\<^verbatim>\<open>Object.keys(obj)\<close>: the keys an object has of its own.\<close>

definition Object_keys :: "fields \<Rightarrow> string list" where
  "Object_keys obj = map fst obj"

text \<open>
  A key that names an element of an array: the canonical decimal form of an integer below
  \<open>2^32 - 1\<close>.
\<close>

definition index_value :: "string \<Rightarrow> nat" where
  "index_value k = digits_value k"

definition is_index :: "string \<Rightarrow> bool" where
  "is_index k =
     (k \<noteq> [] \<and> list_all is_digit k \<and> (length k = 1 \<or> hd k \<noteq> CHR ''0'') \<and>
      index_value k < 4294967295)"

text \<open>
  The string-named properties of \<^verbatim>\<open>Object.prototype\<close> other than \<^verbatim>\<open>__proto__\<close>, and those of
  \<^verbatim>\<open>Array.prototype\<close> other than \<^verbatim>\<open>length\<close> (ECMAScript 2023); all of them are functions.
\<close>

definition Object_prototype_names :: "string list" where
  "Object_prototype_names =
     [''constructor'', ''hasOwnProperty'', ''isPrototypeOf'', ''propertyIsEnumerable'',
      ''toLocaleString'', ''toString'', ''valueOf'', ''__defineGetter__'',
      ''__defineSetter__'', ''__lookupGetter__'', ''__lookupSetter__'']"

definition Array_prototype_names :: "string list" where
  "Array_prototype_names =
     [''at'', ''concat'', ''constructor'', ''copyWithin'', ''entries'', ''every'', ''fill'',
      ''filter'', ''find'', ''findIndex'', ''findLast'', ''findLastIndex'', ''flat'',
      ''flatMap'', ''forEach'', ''includes'', ''indexOf'', ''join'', ''keys'',
      ''lastIndexOf'', ''map'', ''pop'', ''push'', ''reduce'', ''reduceRight'', ''reverse'',
      ''shift'', ''slice'', ''some'', ''sort'', ''splice'', ''toLocaleString'',
      ''toReversed'', ''toSorted'', ''toSpliced'', ''toString'', ''unshift'', ''values'',
      ''with'']"

text \<open>
  \<^verbatim>\<open>obj[key] = v\<close> for a string \<open>v\<close>, on an object whose prototype is \<^verbatim>\<open>Object.prototype\<close>.
  Every key but \<^verbatim>\<open>__proto__\<close> becomes or stays a member of the object. For \<^verbatim>\<open>__proto__\<close> the
  assignment reaches the setter of \<^verbatim>\<open>Object.prototype\<close>, which ignores a string: no member
  is created and the prototype stays.
\<close>

definition assign_entry :: "fields \<Rightarrow> string \<Rightarrow> jsval \<Rightarrow> fields" where
  "assign_entry obj key v = (if key = ''__proto__'' then obj else AList.update key v obj)"

text \<open>
  The object \<^verbatim>\<open>formData = {}\<close> of \<^verbatim>\<open>extractFormData\<close>: the members it has of its own, in
  insertion order, and its prototype, which is \<^verbatim>\<open>Object.prototype\<close> (\<open>None\<close>) until an
  assignment to \<^verbatim>\<open>__proto__\<close> replaces it with an array. The extractor assigns strings and
  arrays only, so that no other prototype can arise.
\<close>

record dictionary =
  own_fields :: fields
  array_prototype :: "jsval list option"

definition empty_dictionary :: dictionary where
  "empty_dictionary = \<lparr> own_fields = [], array_prototype = None \<rparr>"

text \<open>
  \<^verbatim>\<open>formData[name]\<close>: a member of its own, or else what the prototype chain answers. Under
  \<^verbatim>\<open>Object.prototype\<close> that is one of its functions, and the prototype itself for
  \<^verbatim>\<open>__proto__\<close>. Under an array it is the array for \<^verbatim>\<open>__proto__\<close>, an element, the
  length, or a function of \<^verbatim>\<open>Array.prototype\<close> or \<^verbatim>\<open>Object.prototype\<close>.
\<close>

definition formData_get :: "dictionary \<Rightarrow> string \<Rightarrow> jsval" where
  "formData_get formData name =
     (case map_of (own_fields formData) name of
        Some v \<Rightarrow> v
      | None \<Rightarrow>
          (case array_prototype formData of
             None \<Rightarrow>
               (if name = ''__proto__'' then JBuiltin ''Object.prototype''
                else if name \<in> set Object_prototype_names
                then JBuiltin (''Object.prototype.'' @ name)
                else JUndefined)
           | Some arr \<Rightarrow>
               (if name = ''__proto__'' then JArr arr
                else if is_index name \<and> index_value name < length arr
                then arr ! index_value name
                else if name = ''length'' then JNum (decimal (length arr))
                else if name \<in> set Array_prototype_names
                then JBuiltin (''Array.prototype.'' @ name)
                else if name \<in> set Object_prototype_names
                then JBuiltin (''Object.prototype.'' @ name)
                else JUndefined)))"

text \<open>
  \<^verbatim>\<open>formData[name] = value\<close> for a string and for an array. Every name but \<^verbatim>\<open>__proto__\<close>
  becomes or stays a member of the object itself. An assignment to \<^verbatim>\<open>__proto__\<close> reaches the
  setter of \<^verbatim>\<open>Object.prototype\<close>, which ignores a string and installs an array as the
  prototype; it creates no member.
\<close>

definition formData_set_string :: "dictionary \<Rightarrow> string \<Rightarrow> string \<Rightarrow> dictionary" where
  "formData_set_string formData name s =
     (if name = ''__proto__'' then formData
      else formData \<lparr> own_fields := AList.update name (JStr s) (own_fields formData) \<rparr>)"

definition formData_set_array :: "dictionary \<Rightarrow> string \<Rightarrow> jsval list \<Rightarrow> dictionary" where
  "formData_set_array formData name xs =
     (if name = ''__proto__'' then formData \<lparr> array_prototype := Some xs \<rparr>
      else formData \<lparr> own_fields := AList.update name (JArr xs) (own_fields formData) \<rparr>)"

text \<open>
  \<^verbatim>\<open>formData[name].push(value)\<close>, where \<^verbatim>\<open>formData[name]\<close> is an array with the elements
  \<open>xs\<close>: the array grows where it lives, as a member of the object, as its prototype, or as
  an element of its prototype.
\<close>

definition formData_push :: "dictionary \<Rightarrow> string \<Rightarrow> jsval list \<Rightarrow> jsval \<Rightarrow> dictionary" where
  "formData_push formData name xs v =
     (if map_of (own_fields formData) name \<noteq> None
      then formData \<lparr> own_fields := AList.update name (JArr (xs @ [v])) (own_fields formData) \<rparr>
      else (case array_prototype formData of
              None \<Rightarrow> formData
            | Some arr \<Rightarrow>
                (if name = ''__proto__'' then formData \<lparr> array_prototype := Some (xs @ [v]) \<rparr>
                 else formData \<lparr> array_prototype :=
                        Some (arr[index_value name := JArr (xs @ [v])]) \<rparr>)))"

subsection \<open>The page environment\<close>

text \<open>
  What the script reads from \<^verbatim>\<open>window.location\<close>, \<^verbatim>\<open>document.title\<close> and the clock
  (\<^verbatim>\<open>new Date().toISOString()\<close>) at the moment a submission is built.
\<close>

record page =
  href :: string
  hostname :: string
  pathname :: string
  title :: string
  now :: string

text \<open>
  The canonical record. The native path builds it without a \<^verbatim>\<open>source\<close> property, hence the
  option.
\<close>

record submission =
  sub_url :: string
  sub_action :: string
  sub_timestamp :: string
  sub_fields :: fields
  sub_title :: string
  sub_source :: "string option"

text \<open>\<^verbatim>\<open>a || b\<close> on strings: the first one that is not empty.\<close>

definition str_or :: "string \<Rightarrow> string \<Rightarrow> string" where
  "str_or a b = (if a \<noteq> [] then a else b)"

subsection \<open>IgnorePolicy\<close>

definition DEFAULT_IGNORE_PATTERNS :: "string list" where
  "DEFAULT_IGNORE_PATTERNS =
     [''login'', ''signin'', ''password'', ''auth'', ''bank'', ''credit'', ''payment'']"

text \<open>\<^verbatim>\<open>/pattern/i.test(s)\<close> for a pattern of plain letters: a case-insensitive substring test.\<close>

definition pattern_test :: "string \<Rightarrow> string \<Rightarrow> bool" where
  "pattern_test pattern s = str_includes (toLowerCase s) (toLowerCase pattern)"

fun ignore_loop :: "string list \<Rightarrow> string \<Rightarrow> string \<Rightarrow> bool" where
  "ignore_loop [] urlStr actionStr = False"
| "ignore_loop (pattern # rest) urlStr actionStr =
     (if pattern_test pattern urlStr \<or> pattern_test pattern actionStr then True
      else ignore_loop rest urlStr actionStr)"

definition shouldIgnore :: "string \<Rightarrow> string \<Rightarrow> bool" where
  "shouldIgnore url action =
     (let urlStr = toLowerCase (str_or url []);
          actionStr = toLowerCase (str_or action [])
      in ignore_loop DEFAULT_IGNORE_PATTERNS urlStr actionStr)"

subsection \<open>GenericExtractor\<close>

text \<open>
  A control of \<^verbatim>\<open>form.elements\<close>, by the properties \<^verbatim>\<open>extractFormData\<close> reads.
  \<open>elem_value\<close> is \<open>None\<close> where the control has no \<^verbatim>\<open>value\<close> property (a fieldset);
  \<open>elem_files\<close> is \<^verbatim>\<open>element.files.length\<close>.
\<close>

record element =
  elem_name :: string
  elem_type :: string
  elem_disabled :: bool
  elem_checked :: bool
  elem_value :: "string option"
  elem_files :: nat
  elem_tagName :: string

text \<open>
  The value a control contributes; \<open>None\<close> is the \<^verbatim>\<open>continue\<close> of an unchecked box or of a
  file input without files, \<open>Some None\<close> the \<^verbatim>\<open>undefined\<close> of a control without a value,
  and \<open>Some (Some s)\<close> the string \<open>s\<close>.
\<close>

definition control_value :: "element \<Rightarrow> string option option" where
  "control_value element =
     (if elem_type element = ''checkbox'' \<or> elem_type element = ''radio'' then
        (if elem_checked element
         then Some (Some (str_or (case elem_value element of Some v \<Rightarrow> v | None \<Rightarrow> []) ''checked''))
         else None)
      else if elem_type element = ''file'' then
        (if elem_files element > 0
         then Some (Some (decimal (elem_files element) @ '' file(s) selected''))
         else None)
      else if elem_tagName element = ''SELECT'' then Some (elem_value element)
      else Some (elem_value element))"

text \<open>Lines 135 to 146: store a non-empty value, accumulating same-named controls.\<close>

definition store_value :: "dictionary \<Rightarrow> string \<Rightarrow> string option \<Rightarrow> dictionary" where
  "store_value formData name v =
     (case v of
        None \<Rightarrow> formData
      | Some s \<Rightarrow>
          (if s = [] then formData
           else if truthy (formData_get formData name) then
             (case formData_get formData name of
                JArr xs \<Rightarrow> formData_push formData name xs (JStr s)
              | old \<Rightarrow> formData_set_array formData name [old, JStr s])
           else formData_set_string formData name s))"

text \<open>One iteration of the loop over \<^verbatim>\<open>form.elements\<close>.\<close>

definition extract_step :: "dictionary \<Rightarrow> element \<Rightarrow> dictionary" where
  "extract_step formData element =
     (if elem_name element = [] then formData
      else if elem_type element = ''password'' then formData
      else if elem_disabled element then formData
      else (case control_value element of
              None \<Rightarrow> formData
            | Some v \<Rightarrow> store_value formData (elem_name element) v))"

text \<open>The loop, and the members of the object it returns.\<close>

definition extractFormData :: "element list \<Rightarrow> fields" where
  "extractFormData form = own_fields (foldl extract_step empty_dictionary form)"

subsection \<open>Native submit capture\<close>

text \<open>
  A form as the submit handler sees it: its controls and \<^verbatim>\<open>form.action\<close>. The result is
  the list of messages handed to \<^verbatim>\<open>safeSendMessage\<close>.
\<close>

record form =
  form_elements :: "element list"
  form_action :: string

definition captureFormSubmission :: "page \<Rightarrow> form \<Rightarrow> submission list" where
  "captureFormSubmission pg frm =
     (let actionUrl = str_or (form_action frm) (href pg);
          pageUrl = href pg
      in if shouldIgnore pageUrl actionUrl then []
         else (let formData = extractFormData (form_elements frm)
               in if length (Object_keys formData) = 0 then []
                  else [\<lparr> sub_url = pageUrl,
                          sub_action = str_or actionUrl pageUrl,
                          sub_timestamp = now pg,
                          sub_fields = formData,
                          sub_title = str_or (title pg) ''Untitled Page'',
                          sub_source = None \<rparr>]))"

subsection \<open>ProviderClassifier\<close>

definition isGoogleForm :: "page \<Rightarrow> bool" where
  "isGoogleForm pg =
     (str_includes (hostname pg) ''docs.google.com'' \<and> str_includes (pathname pg) ''/forms/'')"

definition isMicrosoftForm :: "page \<Rightarrow> bool" where
  "isMicrosoftForm pg =
     (let host = toLowerCase (hostname pg)
      in str_includes host ''forms.office.com'' \<or>
         str_includes host ''forms.microsoft.com'' \<or>
         str_includes host ''forms.office365.com'')"

definition isClickUpForm :: "page \<Rightarrow> bool" where
  "isClickUpForm pg =
     (let host = toLowerCase (hostname pg) in str_includes host ''forms.clickup.com'')"

text \<open>The providers \<^verbatim>\<open>init\<close> reports for the page (lines 1214 to 1217).\<close>

definition detected :: "page \<Rightarrow> string list" where
  "detected pg =
     (if isGoogleForm pg then [''Google Forms''] else []) @
     (if isMicrosoftForm pg then [''Microsoft Forms''] else []) @
     (if isClickUpForm pg then [''ClickUp Forms''] else [])"

subsection \<open>Provider capture with retry\<close>

text \<open>
  The provider extractors (\<^verbatim>\<open>extractGoogleFormData\<close>, \<^verbatim>\<open>extractMicrosoftFormData\<close>,
  \<^verbatim>\<open>extractClickUpFormData\<close>) scrape the whole document and catch their own exceptions. A
  \<open>snapshot\<close> is the document at the moment of one invocation: the page, what each
  extractor returns on it, and the nodes the last-resort selector matches, each by the
  properties the last-resort loop reads (\<^verbatim>\<open>getAttribute\<close> gives \<open>None\<close> for \<^verbatim>\<open>null\<close>).
\<close>

record input_node =
  in_value :: string
  in_textContent :: string
  in_name :: "string option"
  in_aria_label :: "string option"
  in_testid :: "string option"
  in_heading :: "string option"
  in_label :: "string option"

record snapshot =
  snap_page :: page
  snap_google :: fields
  snap_microsoft :: fields
  snap_clickup :: fields
  snap_inputs :: "input_node list"

text \<open>The outcome of one capture chain: the delays of the timers it set, and what it sent.\<close>

record capture =
  cap_timers :: "nat list"
  cap_sent :: "submission list"

definition is_space :: "char \<Rightarrow> bool" where
  "is_space c = (c \<in> set [CHR '' '', CHR 0x09, CHR 0x0A, CHR 0x0B, CHR 0x0C, CHR 0x0D])"

definition trim :: "string \<Rightarrow> string" where
  "trim s = rev (dropWhile is_space (rev (dropWhile is_space s)))"

text \<open>\<^verbatim>\<open>a || b\<close> where \<open>a\<close> is \<^verbatim>\<open>null\<close>, \<^verbatim>\<open>undefined\<close> or a string.\<close>

definition opt_or :: "string option \<Rightarrow> string \<Rightarrow> string" where
  "opt_or a b = (case a of Some s \<Rightarrow> str_or s b | None \<Rightarrow> b)"

definition maxAttempts :: nat where
  "maxAttempts = 3"

text \<open>
  The last-resort loop of \<^verbatim>\<open>captureGoogleFormSubmission\<close> (lines 351 to 358), on the empty
  object the extractor returned.
\<close>

definition google_last_resort_step :: "fields \<Rightarrow> input_node \<Rightarrow> fields" where
  "google_last_resort_step formData input =
     (let v = str_or (in_value input) (in_textContent input);
          name = opt_or (in_name input) (opt_or (in_aria_label input) (opt_or (in_heading input)
                   (''Field_'' @ decimal (length (Object_keys formData) + 1))))
      in if v \<noteq> [] \<and> trim v \<noteq> [] then assign_entry formData name (JStr v) else formData)"

text \<open>
  \<^verbatim>\<open>attemptCapture\<close>: \<open>doc n\<close> is the document at the \<open>n\<close>-th invocation of the chain, and
  \<open>attempts\<close> the counter before the invocation. A retry is the timer of 300 ms followed
  by the next invocation; the submission is built from the page as it is at the invocation
  that sends it (lines 365 to 372).
\<close>

function google_attemptCapture :: "(nat \<Rightarrow> snapshot) \<Rightarrow> nat \<Rightarrow> capture" where
  "google_attemptCapture doc attempts =
     (let attempts' = attempts + 1;
          formData = snap_google (doc attempts')
      in if length (Object_keys formData) = 0 \<and> attempts' < maxAttempts then
           (let later = google_attemptCapture doc attempts'
            in later\<lparr> cap_timers := 300 # cap_timers later \<rparr>)
         else
           (let formData' =
                  (if length (Object_keys formData) = 0
                   then foldl google_last_resort_step formData (snap_inputs (doc attempts'))
                   else formData)
            in if length (Object_keys formData') = 0 then \<lparr> cap_timers = [], cap_sent = [] \<rparr>
               else \<lparr> cap_timers = [],
                      cap_sent = [\<lparr> sub_url = href (snap_page (doc attempts')),
                                   sub_action = href (snap_page (doc attempts')),
                                   sub_timestamp = now (snap_page (doc attempts')),
                                   sub_fields = formData',
                                   sub_title = str_or (title (snap_page (doc attempts'))) ''Google Form'',
                                   sub_source = Some ''google-forms'' \<rparr>] \<rparr>))"
  by pat_completeness auto
termination
  by (relation "measure (\<lambda>(doc, attempts). maxAttempts - attempts)") auto

definition captureGoogleFormSubmission :: "(nat \<Rightarrow> snapshot) \<Rightarrow> capture" where
  "captureGoogleFormSubmission doc =
     (if \<not> isGoogleForm (snap_page (doc 1)) then \<lparr> cap_timers = [], cap_sent = [] \<rparr>
      else google_attemptCapture doc 0)"

text \<open>\<^verbatim>\<open>captureMicrosoftFormSubmission\<close>: one attempt, no retry.\<close>

definition captureMicrosoftFormSubmission :: "(nat \<Rightarrow> snapshot) \<Rightarrow> capture" where
  "captureMicrosoftFormSubmission doc =
     (if \<not> isMicrosoftForm (snap_page (doc 1)) then \<lparr> cap_timers = [], cap_sent = [] \<rparr>
      else (let formData = snap_microsoft (doc 1)
            in if length (Object_keys formData) = 0 then \<lparr> cap_timers = [], cap_sent = [] \<rparr>
               else \<lparr> cap_timers = [],
                      cap_sent = [\<lparr> sub_url = href (snap_page (doc 1)),
                                   sub_action = href (snap_page (doc 1)),
                                   sub_timestamp = now (snap_page (doc 1)),
                                   sub_fields = formData,
                                   sub_title = str_or (title (snap_page (doc 1))) ''Microsoft Form'',
                                   sub_source = Some ''microsoft-forms'' \<rparr>] \<rparr>))"

text \<open>\<^verbatim>\<open>captureClickUpFormSubmission\<close>: the chain of the Google capture, with its own names.\<close>

definition clickup_last_resort_step :: "fields \<Rightarrow> input_node \<Rightarrow> fields" where
  "clickup_last_resort_step formData input =
     (let v = str_or (in_value input) (in_textContent input);
          name = opt_or (in_name input) (opt_or (in_testid input) (opt_or (in_aria_label input)
                   (opt_or (in_label input)
                     (''Field_'' @ decimal (length (Object_keys formData) + 1)))))
      in if v \<noteq> [] \<and> trim v \<noteq> [] then assign_entry formData name (JStr v) else formData)"

function clickup_attemptCapture :: "(nat \<Rightarrow> snapshot) \<Rightarrow> nat \<Rightarrow> capture" where
  "clickup_attemptCapture doc attempts =
     (let attempts' = attempts + 1;
          formData = snap_clickup (doc attempts')
      in if length (Object_keys formData) = 0 \<and> attempts' < maxAttempts then
           (let later = clickup_attemptCapture doc attempts'
            in later\<lparr> cap_timers := 300 # cap_timers later \<rparr>)
         else
           (let formData' =
                  (if length (Object_keys formData) = 0
                   then foldl clickup_last_resort_step formData (snap_inputs (doc attempts'))
                   else formData)
            in if length (Object_keys formData') = 0 then \<lparr> cap_timers = [], cap_sent = [] \<rparr>
               else \<lparr> cap_timers = [],
                      cap_sent = [\<lparr> sub_url = href (snap_page (doc attempts')),
                                   sub_action = href (snap_page (doc attempts')),
                                   sub_timestamp = now (snap_page (doc attempts')),
                                   sub_fields = formData',
                                   sub_title = str_or (title (snap_page (doc attempts'))) ''ClickUp Form'',
                                   sub_source = Some ''clickup-forms'' \<rparr>] \<rparr>))"
  by pat_completeness auto
termination
  by (relation "measure (\<lambda>(doc, attempts). maxAttempts - attempts)") auto

definition captureClickUpFormSubmission :: "(nat \<Rightarrow> snapshot) \<Rightarrow> capture" where
  "captureClickUpFormSubmission doc =
     (if \<not> isClickUpForm (snap_page (doc 1)) then \<lparr> cap_timers = [], cap_sent = [] \<rparr>
      else clickup_attemptCapture doc 0)"

subsection \<open>SubmitTriggerWatcher\<close>

text \<open>
  A control, by what the watcher reads and writes: \<^verbatim>\<open>dataset.formtrackWatched\<close> (\<open>None\<close>
  while the attribute is absent) and the listeners the engine has added to it. The document
  maps a node identity to its control; \<open>query\<close> is \<^verbatim>\<open>document.querySelectorAll\<close> on the
  document of one run, \<open>None\<close> where it throws on a selector it cannot parse.
\<close>

datatype listener = ClickCapture | MousedownCapture

record control =
  formtrackWatched :: "string option"
  listeners :: "listener list"

type_synonym document = "nat \<Rightarrow> control"

definition google_submitButtonSelectors :: "string list" where
  "google_submitButtonSelectors =
     [''[jsname=\"M2UYVd\"]'',
      ''[jsname*=\"Submit\"]'',
      ''.freebirdFormviewerViewNavigationSubmitButton'',
      ''[class*=\"SubmitButton\"]'',
      ''[class*=\"submitButton\"]'',
      ''button[type=\"submit\"]'',
      ''[role=\"button\"][aria-label*=\"Submit\"]'',
      ''[role=\"button\"][aria-label*=\"submit\"]'',
      ''[role=\"button\"][aria-label*=\"Submit response\"]'',
      ''button:has-text(\"Submit\")'',
      ''div[role=\"button\"]:has-text(\"Submit\")'']"

text \<open>\<^verbatim>\<open>button.dataset.formtrackWatched\<close> as a condition.\<close>

definition watched :: "control \<Rightarrow> bool" where
  "watched c = (case formtrackWatched c of Some s \<Rightarrow> s \<noteq> [] | None \<Rightarrow> False)"

text \<open>The body of \<^verbatim>\<open>buttons.forEach\<close> (lines 410 to 425).\<close>

definition attach_button :: "document \<Rightarrow> nat \<Rightarrow> document" where
  "attach_button d button =
     (if \<not> watched (d button) then
        d(button := \<lparr> formtrackWatched = Some ''true'',
                      listeners = listeners (d button) @ [ClickCapture, MousedownCapture] \<rparr>)
      else d)"

definition attach_selector :: "(string \<Rightarrow> nat list option) \<Rightarrow> document \<Rightarrow> string \<Rightarrow> document" where
  "attach_selector query d selector =
     (case query selector of
        None \<Rightarrow> d
      | Some buttons \<Rightarrow> foldl attach_button d buttons)"

definition attachListeners :: "(string \<Rightarrow> nat list option) \<Rightarrow> document \<Rightarrow> document" where
  "attachListeners query d = foldl (attach_selector query) d google_submitButtonSelectors"

text \<open>
  Any number of runs of \<^verbatim>\<open>attachListeners\<close> (the initial one, the mutation observer's, the
  interval's), each on the query results of its moment.
\<close>

definition attach_runs :: "(string \<Rightarrow> nat list option) list \<Rightarrow> document \<Rightarrow> document" where
  "attach_runs queries d = foldl (\<lambda>d query. attachListeners query d) d queries"

text \<open>A page the engine has not touched yet.\<close>

definition fresh_document :: document where
  "fresh_document = (\<lambda>node. \<lparr> formtrackWatched = None, listeners = [] \<rparr>)"

text \<open>
  What the engine leaves on a control of a page it found untouched: nothing, or the mark
  together with one click listener and one mousedown listener.
\<close>

definition engine_state :: "control \<Rightarrow> bool" where
  "engine_state c \<longleftrightarrow>
     (formtrackWatched c = None \<and> listeners c = []) \<or>
     (formtrackWatched c = Some ''true'' \<and> listeners c = [ClickCapture, MousedownCapture])"

subsection \<open>Host functions: \<^verbatim>\<open>JSON.parse\<close>\<close>

text \<open>
  \<^verbatim>\<open>JSON.parse\<close> belongs to the host, not to the script; it is modelled after the JSON
  grammar so that the interceptors can be run on concrete bodies. \<open>None\<close> is the
  \<^verbatim>\<open>SyntaxError\<close>. The text is cut into tokens by an automaton over the characters, and the
  tokens are assembled by a second automaton with a stack of open containers. A \<^verbatim>\<open>\uXXXX\<close>
  escape is stored as the UTF-8 bytes of its code unit.
\<close>

datatype token =
    TLBrace | TRBrace | TLBracket | TRBracket | TColon | TComma
  | TString string | TNumber string | TTrue | TFalse | TNull

datatype lexmode =
    Between
  | InString string
  | InEscape string
  | InUnicode string "nat list"
  | InNumber string
  | InWord string

definition is_ws :: "char \<Rightarrow> bool" where
  "is_ws c = (c \<in> set [CHR '' '', CHR 0x09, CHR 0x0A, CHR 0x0D])"

definition is_number_char :: "char \<Rightarrow> bool" where
  "is_number_char c = (is_digit c \<or> c \<in> set ''+-.eE'')"

definition is_letter :: "char \<Rightarrow> bool" where
  "is_letter c = (c \<in> set ascii_lower)"

definition punctuation :: "char \<Rightarrow> token option" where
  "punctuation c =
     map_of [(CHR ''{'', TLBrace), (CHR ''}'', TRBrace), (CHR ''['', TLBracket),
             (CHR '']'', TRBracket), (CHR '':'', TColon), (CHR '','', TComma)] c"

definition hex_value :: "char \<Rightarrow> nat option" where
  "hex_value c =
     map_of (zip ''0123456789abcdefABCDEF''
                 [0, 1, 2, 3, 4, 5, 6, 7, 8, 9, 10, 11, 12, 13, 14, 15, 10, 11, 12, 13, 14, 15]) c"

definition unescape :: "char \<Rightarrow> char option" where
  "unescape c =
     map_of [(CHR 0x22, CHR 0x22), (CHR 0x5C, CHR 0x5C), (CHR ''/'', CHR ''/''),
             (CHR ''b'', CHR 0x08), (CHR ''f'', CHR 0x0C), (CHR ''n'', CHR 0x0A),
             (CHR ''r'', CHR 0x0D), (CHR ''t'', CHR 0x09)] c"

definition utf8 :: "nat \<Rightarrow> string" where
  "utf8 n =
     (if n < 128 then [char_of n]
      else if n < 2048 then [char_of (192 + n div 64), char_of (128 + n mod 64)]
      else [char_of (224 + n div 4096), char_of (128 + (n div 64) mod 64),
            char_of (128 + n mod 64)])"

definition word_token :: "string \<Rightarrow> token option" where
  "word_token w =
     (if w = ''true'' then Some TTrue
      else if w = ''false'' then Some TFalse
      else if w = ''null'' then Some TNull
      else None)"

text \<open>The number grammar: \<^verbatim>\<open>-? (0 | [1-9][0-9]*) (. [0-9]+)? ([eE] [+-]? [0-9]+)?\<close>.\<close>

definition valid_exponent :: "string \<Rightarrow> bool" where
  "valid_exponent r =
     (case r of
        [] \<Rightarrow> True
      | e # r' \<Rightarrow>
          (e = CHR ''e'' \<or> e = CHR ''E'') \<and>
          (let ds = (if startsWith r' ''+'' \<or> startsWith r' ''-'' then tl r' else r')
           in ds \<noteq> [] \<and> list_all is_digit ds))"

definition valid_fraction :: "string \<Rightarrow> bool" where
  "valid_fraction r =
     (if startsWith r ''.''
      then takeWhile is_digit (tl r) \<noteq> [] \<and> valid_exponent (dropWhile is_digit (tl r))
      else valid_exponent r)"

definition valid_number :: "string \<Rightarrow> bool" where
  "valid_number n =
     (let r = (if startsWith n ''-'' then tl n else n);
          ds = takeWhile is_digit r
      in ds \<noteq> [] \<and> (length ds = 1 \<or> hd ds \<noteq> CHR ''0'') \<and> valid_fraction (dropWhile is_digit r))"

text \<open>
  After a number or a literal only white space or punctuation can follow in a JSON text,
  so the character that ends one is consumed in the same step.
\<close>

definition after_token :: "token \<Rightarrow> char \<Rightarrow> token list option \<Rightarrow> token list option" where
  "after_token t c rest =
     (if is_ws c then map_option ((#) t) rest
      else (case punctuation c of
              Some p \<Rightarrow> map_option (\<lambda>ts. t # p # ts) rest
            | None \<Rightarrow> None))"

fun lex :: "lexmode \<Rightarrow> string \<Rightarrow> token list option" where
  "lex Between [] = Some []"
| "lex (InNumber n) [] = (if valid_number n then Some [TNumber n] else None)"
| "lex (InWord w) [] = map_option (\<lambda>t. [t]) (word_token w)"
| "lex (InString acc) [] = None"
| "lex (InEscape acc) [] = None"
| "lex (InUnicode acc hs) [] = None"
| "lex Between (c # cs) =
     (if is_ws c then lex Between cs
      else if c = CHR 0x22 then lex (InString []) cs
      else if c = CHR ''-'' \<or> is_digit c then lex (InNumber [c]) cs
      else if is_letter c then lex (InWord [c]) cs
      else (case punctuation c of
              Some p \<Rightarrow> map_option ((#) p) (lex Between cs)
            | None \<Rightarrow> None))"
| "lex (InString acc) (c # cs) =
     (if c = CHR 0x22 then map_option ((#) (TString acc)) (lex Between cs)
      else if c = CHR 0x5C then lex (InEscape acc) cs
      else if (of_char c :: nat) < 32 then None
      else lex (InString (acc @ [c])) cs)"
| "lex (InEscape acc) (c # cs) =
     (if c = CHR ''u'' then lex (InUnicode acc []) cs
      else (case unescape c of
              Some ch \<Rightarrow> lex (InString (acc @ [ch])) cs
            | None \<Rightarrow> None))"
| "lex (InUnicode acc hs) (c # cs) =
     (case hex_value c of
        None \<Rightarrow> None
      | Some h \<Rightarrow>
          (if length hs = 3
           then lex (InString (acc @ utf8 (foldl (\<lambda>n d. 16 * n + d) 0 (hs @ [h])))) cs
           else lex (InUnicode acc (hs @ [h])) cs))"
| "lex (InNumber n) (c # cs) =
     (if is_number_char c then lex (InNumber (n @ [c])) cs
      else if valid_number n then after_token (TNumber n) c (lex Between cs)
      else None)"
| "lex (InWord w) (c # cs) =
     (if is_letter c then lex (InWord (w @ [c])) cs
      else (case word_token w of
              Some t \<Rightarrow> after_token t c (lex Between cs)
            | None \<Rightarrow> None))"

text \<open>
  The open containers: an array with its elements so far, an object with its members so
  far, an object with a member name whose value is being read.
\<close>

datatype frame =
    ArrayFrame "jsval list"
  | ObjectFrame fields
  | MemberFrame fields string

datatype expect =
    ExpValue | ExpValueOrClose | ExpKeyOrClose | ExpKey | ExpColon | ExpCommaOrClose
  | ExpEnd jsval

definition deliver :: "jsval \<Rightarrow> frame list \<Rightarrow> (expect \<times> frame list) option" where
  "deliver v stack =
     (case stack of
        [] \<Rightarrow> Some (ExpEnd v, [])
      | ArrayFrame xs # st \<Rightarrow> Some (ExpCommaOrClose, ArrayFrame (xs @ [v]) # st)
      | MemberFrame kvs k # st \<Rightarrow> Some (ExpCommaOrClose, ObjectFrame (AList.update k v kvs) # st)
      | ObjectFrame kvs # st \<Rightarrow> None)"

definition token_value :: "token \<Rightarrow> jsval option" where
  "token_value t =
     (case t of
        TString s \<Rightarrow> Some (JStr s)
      | TNumber n \<Rightarrow> Some (JNum n)
      | TTrue \<Rightarrow> Some (JBool True)
      | TFalse \<Rightarrow> Some (JBool False)
      | TNull \<Rightarrow> Some JNull
      | _ \<Rightarrow> None)"

definition start_value :: "token \<Rightarrow> frame list \<Rightarrow> (expect \<times> frame list) option" where
  "start_value t stack =
     (case t of
        TLBracket \<Rightarrow> Some (ExpValueOrClose, ArrayFrame [] # stack)
      | TLBrace \<Rightarrow> Some (ExpKeyOrClose, ObjectFrame [] # stack)
      | _ \<Rightarrow> (case token_value t of Some v \<Rightarrow> deliver v stack | None \<Rightarrow> None))"

definition start_key :: "token \<Rightarrow> frame list \<Rightarrow> (expect \<times> frame list) option" where
  "start_key t stack =
     (case t of
        TString k \<Rightarrow>
          (case stack of
             ObjectFrame kvs # st \<Rightarrow> Some (ExpColon, MemberFrame kvs k # st)
           | _ \<Rightarrow> None)
      | _ \<Rightarrow> None)"

definition close_array :: "frame list \<Rightarrow> (expect \<times> frame list) option" where
  "close_array stack =
     (case stack of ArrayFrame xs # st \<Rightarrow> deliver (JArr xs) st | _ \<Rightarrow> None)"

definition close_object :: "frame list \<Rightarrow> (expect \<times> frame list) option" where
  "close_object stack =
     (case stack of ObjectFrame kvs # st \<Rightarrow> deliver (JObj kvs) st | _ \<Rightarrow> None)"

definition parse_step :: "expect \<times> frame list \<Rightarrow> token \<Rightarrow> (expect \<times> frame list) option" where
  "parse_step cfg t =
     (case cfg of (e, stack) \<Rightarrow>
        (case e of
           ExpValue \<Rightarrow> start_value t stack
         | ExpValueOrClose \<Rightarrow> (if t = TRBracket then close_array stack else start_value t stack)
         | ExpKeyOrClose \<Rightarrow> (if t = TRBrace then close_object stack else start_key t stack)
         | ExpKey \<Rightarrow> start_key t stack
         | ExpColon \<Rightarrow> (if t = TColon then Some (ExpValue, stack) else None)
         | ExpCommaOrClose \<Rightarrow>
             (case stack of
                ArrayFrame xs # st \<Rightarrow>
                  (if t = TComma then Some (ExpValue, stack)
                   else if t = TRBracket then close_array stack
                   else None)
              | ObjectFrame kvs # st \<Rightarrow>
                  (if t = TComma then Some (ExpKey, stack)
                   else if t = TRBrace then close_object stack
                   else None)
              | _ \<Rightarrow> None)
         | ExpEnd v \<Rightarrow> None))"

fun parse_tokens :: "expect \<times> frame list \<Rightarrow> token list \<Rightarrow> jsval option" where
  "parse_tokens cfg [] = (case fst cfg of ExpEnd v \<Rightarrow> Some v | _ \<Rightarrow> None)"
| "parse_tokens cfg (t # ts) =
     (case parse_step cfg t of None \<Rightarrow> None | Some cfg' \<Rightarrow> parse_tokens cfg' ts)"

definition JSON_parse :: "string \<Rightarrow> jsval option" where
  "JSON_parse text =
     (case lex Between text of None \<Rightarrow> None | Some ts \<Rightarrow> parse_tokens (ExpValue, []) ts)"

subsection \<open>Host functions: \<^verbatim>\<open>URLSearchParams\<close>\<close>

text \<open>
  \<^verbatim>\<open>new URLSearchParams(text)\<close> for a string, after the URL standard: a leading question
  mark is dropped, the text is split at \<open>&\<close>, empty pieces are skipped, each piece is split
  at its first \<open>=\<close>, and \<open>+\<close> and percent escapes are decoded.
\<close>

fun split_on :: "char \<Rightarrow> string \<Rightarrow> string list" where
  "split_on sep [] = [[]]"
| "split_on sep (c # cs) =
     (if c = sep then [] # split_on sep cs
      else (case split_on sep cs of piece # pieces \<Rightarrow> (c # piece) # pieces | [] \<Rightarrow> [[c]]))"

fun percent_decode :: "string \<Rightarrow> string" where
  "percent_decode (p # h1 # h2 # cs) =
     (if p = CHR ''%'' then
        (case hex_value h1 of
           Some a \<Rightarrow>
             (case hex_value h2 of
                Some b \<Rightarrow> char_of (16 * a + b) # percent_decode cs
              | None \<Rightarrow> p # percent_decode (h1 # h2 # cs))
         | None \<Rightarrow> p # percent_decode (h1 # h2 # cs))
      else p # percent_decode (h1 # h2 # cs))"
| "percent_decode (c # cs) = c # percent_decode cs"
| "percent_decode [] = []"

definition form_decode :: "string \<Rightarrow> string" where
  "form_decode s = percent_decode (map (\<lambda>c. if c = CHR ''+'' then CHR '' '' else c) s)"

definition parse_pair :: "string \<Rightarrow> string \<times> string" where
  "parse_pair piece =
     (let name = takeWhile (\<lambda>c. c \<noteq> CHR ''='') piece;
          rest = dropWhile (\<lambda>c. c \<noteq> CHR ''='') piece
      in (form_decode name, form_decode (case rest of [] \<Rightarrow> [] | eq # v \<Rightarrow> v)))"

definition URLSearchParams :: "string \<Rightarrow> (string \<times> string) list" where
  "URLSearchParams init =
     map parse_pair
       (filter (\<lambda>piece. piece \<noteq> [])
          (split_on (CHR ''&'') (if startsWith init ''?'' then tl init else init)))"

subsection \<open>NetworkInterceptor: classification and body parsing\<close>

definition isGoogleFormsEndpoint :: "string \<Rightarrow> bool" where
  "isGoogleFormsEndpoint urlStr =
     (str_includes urlStr ''forms/d/e/'' \<or>
      str_includes urlStr ''forms/u/0/d/e/'' \<or>
      str_includes urlStr ''/formResponse'')"

definition isMicrosoftFormsEndpoint :: "string \<Rightarrow> bool" where
  "isMicrosoftFormsEndpoint urlStr =
     (str_includes urlStr ''forms.office.com'' \<or>
      str_includes urlStr ''forms.microsoft.com'' \<or>
      str_includes urlStr ''forms.office365.com'' \<or>
      str_includes urlStr ''/api/form/'' \<or>
      str_includes urlStr ''/api/Response'' \<or>
      str_includes urlStr ''/SubmitForm'')"

definition isClickUpFormsEndpoint :: "string \<Rightarrow> bool" where
  "isClickUpFormsEndpoint urlStr =
     (str_includes urlStr ''forms.clickup.com'' \<or>
      str_includes urlStr ''/api/form/'' \<or>
      str_includes urlStr ''/form/submit'' \<or>
      str_includes urlStr ''/submit-form'')"

text \<open>
  A request body as the interceptors tell bodies apart: a \<^verbatim>\<open>FormData\<close> with its entries in
  order, each a string or a \<^verbatim>\<open>File\<close> (by its name); a string; or anything else (a
  \<^verbatim>\<open>Blob\<close>, a \<^verbatim>\<open>URLSearchParams\<close> object, a buffer).
\<close>

datatype formdata_value = FormText string | FormFile string

definition entry_jsval :: "formdata_value \<Rightarrow> jsval" where
  "entry_jsval v = (case v of FormText s \<Rightarrow> JStr s | FormFile f \<Rightarrow> JFile f)"

datatype body =
    BodyFormData "(string \<times> formdata_value) list"
  | BodyString string
  | BodyOther

text \<open>A body as a condition: only the empty string is falsy.\<close>

definition body_truthy :: "body \<Rightarrow> bool" where
  "body_truthy b = (case b of BodyString s \<Rightarrow> s \<noteq> [] | _ \<Rightarrow> True)"

text \<open>\<^verbatim>\<open>key.toLowerCase().includes('password')\<close>.\<close>

definition has_password :: "string \<Rightarrow> bool" where
  "has_password key = str_includes (toLowerCase key) ''password''"

text \<open>\<^verbatim>\<open>key.replace(/^entry\.?/, '')\<close> and \<^verbatim>\<open>key.replace(/^entry\./, '')\<close>.\<close>

definition replace_entry :: "string \<Rightarrow> string" where
  "replace_entry key =
     (if startsWith key ''entry.'' then drop 6 key
      else if startsWith key ''entry'' then drop 5 key
      else key)"

definition replace_entry_dot :: "string \<Rightarrow> string" where
  "replace_entry_dot key = (if startsWith key ''entry.'' then drop 6 key else key)"

text \<open>
  \<^verbatim>\<open>Object.keys(parsed)\<close> paired with \<^verbatim>\<open>parsed[key]\<close>: for an object its members, those
  named by an array index first in ascending order and then the others in the order of the
  text; for an array and for a string the indices; nothing for a number or a boolean; and a
  \<^verbatim>\<open>TypeError\<close> (\<open>None\<close>) for \<^verbatim>\<open>null\<close>.
\<close>

definition ordered_entries :: "fields \<Rightarrow> fields" where
  "ordered_entries kvs =
     sort_key (\<lambda>kv. index_value (fst kv)) (filter (\<lambda>kv. is_index (fst kv)) kvs) @
     filter (\<lambda>kv. \<not> is_index (fst kv)) kvs"

definition own_entries :: "jsval \<Rightarrow> fields option" where
  "own_entries parsed =
     (case parsed of
        JObj kvs \<Rightarrow> Some (ordered_entries kvs)
      | JArr xs \<Rightarrow> Some (zip (map decimal [0..<length xs]) xs)
      | JStr s \<Rightarrow> Some (zip (map decimal [0..<length s]) (map (\<lambda>c. JStr [c]) s))
      | JNull \<Rightarrow> None
      | JUndefined \<Rightarrow> None
      | _ \<Rightarrow> Some [])"

text \<open>
  \<^verbatim>\<open>parsed['entry.']\<close> and \<^verbatim>\<open>parsed['entry']\<close>: a member of an object, \<^verbatim>\<open>undefined\<close> on
  any other value but \<^verbatim>\<open>null\<close>, where the read raises.
\<close>

definition read_member :: "jsval \<Rightarrow> string \<Rightarrow> jsval option" where
  "read_member parsed k =
     (case parsed of
        JObj kvs \<Rightarrow> Some (get_prop kvs k)
      | JNull \<Rightarrow> None
      | JUndefined \<Rightarrow> None
      | _ \<Rightarrow> Some JUndefined)"

text \<open>
  The object \<^verbatim>\<open>formData = {}\<close> that a JSON reading fills, whose values are whatever the
  text holds: the members it has of its own, and what an assignment to \<^verbatim>\<open>__proto__\<close> finds
  on its prototype chain. At first that is the accessor of \<^verbatim>\<open>Object.prototype\<close>. Its setter
  ignores a primitive value and installs an object or \<^verbatim>\<open>null\<close> as the prototype, creating no
  member. From then on the assignment finds the accessor again (under an array, and under
  an object without a member of that name), or a member \<^verbatim>\<open>__proto__\<close> of the installed
  object, or nothing (under \<^verbatim>\<open>null\<close>); in the last two cases it creates a member of
  \<^verbatim>\<open>formData\<close>.
\<close>

datatype proto_lookup = FindsSetter | FindsMember | FindsNothing

record json_target =
  target_fields :: fields
  target_lookup :: proto_lookup

definition empty_target :: json_target where
  "empty_target = \<lparr> target_fields = [], target_lookup = FindsSetter \<rparr>"

definition assign_member :: "json_target \<Rightarrow> string \<Rightarrow> jsval \<Rightarrow> json_target" where
  "assign_member formData key v =
     (if key = ''__proto__'' \<and> map_of (target_fields formData) key = None \<and>
         target_lookup formData = FindsSetter
      then (case v of
              JNull \<Rightarrow> formData \<lparr> target_lookup := FindsNothing \<rparr>
            | JObj kvs \<Rightarrow>
                (if map_of kvs ''__proto__'' = None then formData
                 else formData \<lparr> target_lookup := FindsMember \<rparr>)
            | _ \<Rightarrow> formData)
      else formData \<lparr> target_fields := AList.update key v (target_fields formData) \<rparr>)"

text \<open>
  The script runs in strict mode, where an assignment that cannot be carried out raises a
  \<^verbatim>\<open>TypeError\<close>.
\<close>

datatype js_error = TypeError

text \<open>
  The object \<^verbatim>\<open>formData = {}\<close> that the reading of a \<^verbatim>\<open>FormData\<close> body fills: the members it
  has of its own, and whether a \<^verbatim>\<open>File\<close> has become its prototype. An assignment to
  \<^verbatim>\<open>__proto__\<close> reaches the setter of \<^verbatim>\<open>Object.prototype\<close>, which ignores a string and
  installs a \<^verbatim>\<open>File\<close> as the prototype; it creates no member, then or later, because a
  \<^verbatim>\<open>File\<close> inherits the same accessor. Under a \<^verbatim>\<open>File\<close> the names of the accessors of
  \<^verbatim>\<open>File.prototype\<close> and \<^verbatim>\<open>Blob.prototype\<close> (as in Chrome) are inherited without a setter, and
  the assignment to one of them that is not yet a member of the object raises.
\<close>

record formdata_target =
  filled_fields :: fields
  file_prototype :: bool

definition empty_formdata :: formdata_target where
  "empty_formdata = \<lparr> filled_fields = [], file_prototype = False \<rparr>"

definition File_accessor_names :: "string list" where
  "File_accessor_names =
     [''name'', ''lastModified'', ''lastModifiedDate'', ''webkitRelativePath'', ''size'',
      ''type'']"

definition assign_formdata ::
  "formdata_target \<Rightarrow> string \<Rightarrow> formdata_value \<Rightarrow> js_error + formdata_target" where
  "assign_formdata formData key v =
     (if key = ''__proto__'' then
        (case v of
           FormText s \<Rightarrow> Inr formData
         | FormFile f \<Rightarrow> Inr (formData \<lparr> file_prototype := True \<rparr>))
      else if file_prototype formData \<and> key \<in> set File_accessor_names \<and>
              map_of (filled_fields formData) key = None
      then Inl TypeError
      else Inr (formData \<lparr> filled_fields :=
                  AList.update key (entry_jsval v) (filled_fields formData) \<rparr>))"

text \<open>
  The callbacks of the three readings (lines 963 to 1011). An exception in the callback of
  \<^verbatim>\<open>forEach\<close> ends the loop.
\<close>

definition formdata_step ::
  "js_error + formdata_target \<Rightarrow> string \<times> formdata_value \<Rightarrow> js_error + formdata_target" where
  "formdata_step state entry =
     (case state of
        Inl e \<Rightarrow> Inl e
      | Inr formData \<Rightarrow>
          (case entry of (key, v) \<Rightarrow>
             if has_password key then Inr formData else assign_formdata formData key v))"

definition formdata_reading :: "(string \<times> formdata_value) list \<Rightarrow> js_error + fields" where
  "formdata_reading entries =
     (case foldl formdata_step (Inr empty_formdata) entries of
        Inl e \<Rightarrow> Inl e
      | Inr formData \<Rightarrow> Inr (filled_fields formData))"

definition json_entry_step :: "json_target \<Rightarrow> string \<times> jsval \<Rightarrow> json_target" where
  "json_entry_step formData member =
     (case member of (key, v) \<Rightarrow>
        if startsWith key ''entry.'' \<or> startsWith key ''entry_''
        then assign_member formData (replace_entry key) v
        else if \<not> has_password key then assign_member formData key v
        else formData)"

definition json_plain_step :: "json_target \<Rightarrow> string \<times> jsval \<Rightarrow> json_target" where
  "json_plain_step formData member =
     (case member of (key, v) \<Rightarrow>
        if \<not> has_password key then assign_member formData key v else formData)"

definition urlencoded_step :: "fields \<Rightarrow> string \<times> string \<Rightarrow> fields" where
  "urlencoded_step formData param =
     (case param of (key, v) \<Rightarrow>
        if \<not> has_password key then
          (if startsWith key ''entry.''
           then assign_entry formData (replace_entry_dot key) (JStr v)
           else assign_entry formData key (JStr v))
        else formData)"

text \<open>
  The key under which the guarded branch stores a member (lines 977 to 982): a name that
  starts with \<open>entry.\<close> or \<open>entry_\<close> loses the prefix matched by \<^verbatim>\<open>/^entry\.?/\<close>.
\<close>

definition cleaned_key :: "string \<Rightarrow> string" where
  "cleaned_key key =
     (if startsWith key ''entry.'' \<or> startsWith key ''entry_'' then replace_entry key else key)"

text \<open>The two loops over \<^verbatim>\<open>Object.keys(parsed)\<close>, and the members they leave.\<close>

definition json_entry_reading :: "fields \<Rightarrow> fields" where
  "json_entry_reading members = target_fields (foldl json_entry_step empty_target members)"

definition json_plain_reading :: "fields \<Rightarrow> fields" where
  "json_plain_reading members = target_fields (foldl json_plain_step empty_target members)"

text \<open>
  The body of the inner \<^verbatim>\<open>try\<close> of \<^verbatim>\<open>interceptFetch\<close> after \<^verbatim>\<open>JSON.parse\<close> has succeeded;
  \<open>None\<close> is an exception, which the inner \<^verbatim>\<open>catch\<close> answers with the URL-encoded reading.
  An exception can only come before the first store, so that reading starts from the empty
  mapping.
\<close>

definition fetch_json_fields :: "bool \<Rightarrow> jsval \<Rightarrow> fields option" where
  "fetch_json_fields isGoogle parsed =
     (if isGoogle then
        (case read_member parsed ''entry.'' of
           None \<Rightarrow> None
         | Some dotted \<Rightarrow>
             (if truthy dotted \<or>
                 truthy (case read_member parsed ''entry'' of Some e \<Rightarrow> e | None \<Rightarrow> JUndefined)
              then map_option json_entry_reading (own_entries parsed)
              else map_option json_plain_reading (own_entries parsed)))
      else map_option json_plain_reading (own_entries parsed))"

text \<open>
  Lines 960 to 1013: the mapping read from the body, or the exception that ends the reading
  and goes to the outer \<^verbatim>\<open>catch\<close>.
\<close>

definition fetch_body_reading :: "bool \<Rightarrow> body \<Rightarrow> js_error + fields" where
  "fetch_body_reading isGoogle b =
     (case b of
        BodyFormData entries \<Rightarrow> formdata_reading entries
      | BodyString s \<Rightarrow>
          Inr (case Option.bind (JSON_parse s) (fetch_json_fields isGoogle) of
                 Some formData \<Rightarrow> formData
               | None \<Rightarrow> foldl urlencoded_step [] (URLSearchParams s))
      | BodyOther \<Rightarrow> Inr [])"

text \<open>
  The mapping that reaches the test of line 1015; it is empty when the reading has raised
  and the test is not reached.
\<close>

definition fetch_body_fields :: "bool \<Rightarrow> body \<Rightarrow> fields" where
  "fetch_body_fields isGoogle b =
     (case fetch_body_reading isGoogle b of Inl e \<Rightarrow> [] | Inr formData \<Rightarrow> formData)"

text \<open>The same for \<^verbatim>\<open>interceptXHR\<close> (lines 1078 to 1108).\<close>

definition xhr_body_reading :: "body \<Rightarrow> js_error + fields" where
  "xhr_body_reading b =
     (case b of
        BodyFormData entries \<Rightarrow> formdata_reading entries
      | BodyString s \<Rightarrow>
          Inr (case Option.bind (JSON_parse s)
                       (\<lambda>parsed. map_option json_entry_reading (own_entries parsed)) of
                 Some formData \<Rightarrow> formData
               | None \<Rightarrow> foldl urlencoded_step [] (URLSearchParams s))
      | BodyOther \<Rightarrow> Inr [])"

subsection \<open>NetworkInterceptor: the wrapped primitives\<close>

text \<open>
  The first argument of \<^verbatim>\<open>fetch\<close> and the URL given to \<^verbatim>\<open>open\<close>: a string, an object
  (a \<^verbatim>\<open>URL\<close>, a \<^verbatim>\<open>Request\<close>) with the string its \<^verbatim>\<open>toString\<close> returns, or nothing. The
  \<^verbatim>\<open>method\<close> is any value: the host accepts what it can turn into a string.
\<close>

datatype jsurl = UrlString string | UrlObject string | UrlMissing

record options =
  opt_method :: jsval
  opt_body :: "body option"

type_synonym fetch_args = "jsurl \<times> options option"

text \<open>
  What a timer set by an interceptor will run: one of the provider captures, or the
  callback of \<^verbatim>\<open>interceptXHR\<close> that builds and sends a submission from the URL, the parsed
  fields and the two endpoint flags it has closed over.
\<close>

datatype task =
    CaptureGoogle
  | CaptureMicrosoft
  | CaptureClickUp
  | SendNetworkSubmission string fields bool bool

text \<open>
  What one call of a wrapped primitive does: the timers it sets (delay and task), the
  submissions it sends, the calls of the original primitive with their arguments, and how
  it ends, with the original's return value or with an exception thrown to the caller.
\<close>

record ('a, 'r) outcome =
  out_timers :: "(nat \<times> task) list"
  out_sent :: "submission list"
  out_calls :: "'a list"
  out_result :: "js_error + 'r"

text \<open>\<^verbatim>\<open>method.toUpperCase()\<close> on a truthy value: only a string has the method.\<close>

definition method_toUpperCase :: "jsval \<Rightarrow> js_error + string" where
  "method_toUpperCase m = (case m of JStr s \<Rightarrow> Inr (toUpperCase s) | _ \<Rightarrow> Inl TypeError)"

text \<open>\<^verbatim>\<open>typeof url === 'string' ? url : url.toString()\<close>.\<close>

definition url_toString :: "jsurl \<Rightarrow> js_error + string" where
  "url_toString url =
     (case url of UrlString s \<Rightarrow> Inr s | UrlObject s \<Rightarrow> Inr s | UrlMissing \<Rightarrow> Inl TypeError)"

definition url_truthy :: "jsurl \<Rightarrow> bool" where
  "url_truthy url = (case url of UrlString s \<Rightarrow> s \<noteq> [] | UrlObject s \<Rightarrow> True | UrlMissing \<Rightarrow> False)"

definition fetch_source :: "bool \<Rightarrow> bool \<Rightarrow> bool \<Rightarrow> string" where
  "fetch_source isGoogle isMicrosoft isClickUp =
     (if isGoogle then ''google-forms''
      else (if isMicrosoft then ''microsoft-forms''
      else (if isClickUp then ''clickup-forms'' else ''fetch'')))"

text \<open>
  The outer \<^verbatim>\<open>try\<close> block of the wrapped \<^verbatim>\<open>fetch\<close> (lines 907 to 1031): the timers it sets
  and the submissions it sends, or the exception of its first statement, which comes before
  any effect. The outer \<^verbatim>\<open>catch\<close> swallows that exception, and the one the reading of the
  body may raise once the timers are set.
\<close>

definition fetch_observe ::
  "page \<Rightarrow> jsurl \<Rightarrow> body \<Rightarrow> js_error + ((nat \<times> task) list \<times> submission list)" where
  "fetch_observe pg url b =
     (case url_toString url of
        Inl e \<Rightarrow> Inl e
      | Inr urlStr \<Rightarrow>
          (let isGoogle = isGoogleFormsEndpoint urlStr;
               isMicrosoft = isMicrosoftFormsEndpoint urlStr;
               isClickUp = isClickUpFormsEndpoint urlStr;
               timers =
                 (if isGoogle
                  then [(200, CaptureGoogle), (800, CaptureGoogle), (1500, CaptureGoogle)]
                  else []) @
                 (if isMicrosoft then [(300, CaptureMicrosoft)] else []) @
                 (if isClickUp
                  then [(200, CaptureClickUp), (800, CaptureClickUp), (1500, CaptureClickUp)]
                  else [])
           in case fetch_body_reading isGoogle b of
                Inl e \<Rightarrow> Inr (timers, [])
              | Inr formData \<Rightarrow>
                  Inr (timers,
                       if length (Object_keys formData) > 0
                       then [\<lparr> sub_url = urlStr, sub_action = urlStr, sub_timestamp = now pg,
                               sub_fields = formData,
                               sub_title = str_or (title pg) ''Untitled Page'',
                               sub_source = Some (fetch_source isGoogle isMicrosoft isClickUp) \<rparr>]
                       else [])))"

text \<open>
  The function installed as \<^verbatim>\<open>window.fetch\<close> (lines 899 to 1038), over the original
  \<^verbatim>\<open>fetch\<close> it has closed over. The condition of the \<^verbatim>\<open>if\<close> is evaluated outside the
  \<^verbatim>\<open>try\<close>.
\<close>

definition wrapped_fetch ::
  "(fetch_args \<Rightarrow> 'r) \<Rightarrow> page \<Rightarrow> fetch_args \<Rightarrow> (fetch_args, 'r) outcome" where
  "wrapped_fetch originalFetch pg args =
     (let pass = \<lparr> out_timers = [], out_sent = [], out_calls = [args],
                   out_result = Inr (originalFetch args) \<rparr>
      in case snd args of
           None \<Rightarrow> pass
         | Some opts \<Rightarrow>
             if \<not> truthy (opt_method opts) then pass
             else (case method_toUpperCase (opt_method opts) of
                     Inl e \<Rightarrow> \<lparr> out_timers = [], out_sent = [], out_calls = [],
                                out_result = Inl e \<rparr>
                   | Inr m \<Rightarrow>
                       if m = ''POST'' \<or> m = ''PUT'' then
                         (case opt_body opts of
                            None \<Rightarrow> pass
                          | Some b \<Rightarrow>
                              if body_truthy b then
                                (case fetch_observe pg (fst args) b of
                                   Inl e \<Rightarrow> pass
                                 | Inr (timers, sent) \<Rightarrow>
                                     pass\<lparr> out_timers := timers, out_sent := sent \<rparr>)
                              else pass)
                       else pass))"

text \<open>
  The two properties \<^verbatim>\<open>open\<close> leaves on the request object, and the functions installed as
  \<^verbatim>\<open>XMLHttpRequest.prototype.open\<close> and \<^verbatim>\<open>send\<close> (lines 1048 to 1147).
\<close>

record xhr =
  formtrackUrl :: jsurl
  formtrackMethod :: jsval

definition wrapped_open ::
  "(jsval \<times> jsurl \<times> 'rest \<Rightarrow> 'r) \<Rightarrow> xhr \<Rightarrow> jsval \<Rightarrow> jsurl \<Rightarrow> 'rest \<Rightarrow> xhr \<times> 'r" where
  "wrapped_open originalOpen this method url rest =
     (this\<lparr> formtrackUrl := url, formtrackMethod := method \<rparr>, originalOpen (method, url, rest))"

definition wrapped_send ::
  "(body option \<Rightarrow> 'r) \<Rightarrow> xhr \<Rightarrow> body option \<Rightarrow> (body option, 'r) outcome" where
  "wrapped_send originalSend this data =
     (let pass = \<lparr> out_timers = [], out_sent = [], out_calls = [data],
                   out_result = Inr (originalSend data) \<rparr>
      in if \<not> truthy (formtrackMethod this) then pass
         else (case method_toUpperCase (formtrackMethod this) of
                 Inl e \<Rightarrow> \<lparr> out_timers = [], out_sent = [], out_calls = [], out_result = Inl e \<rparr>
               | Inr m \<Rightarrow>
                   if (m = ''POST'' \<or> m = ''PUT'') \<and> url_truthy (formtrackUrl this) then
                     (let urlStr = (case formtrackUrl this of
                                      UrlString s \<Rightarrow> s | UrlObject s \<Rightarrow> s | UrlMissing \<Rightarrow> []);
                          isGoogle = isGoogleFormsEndpoint urlStr;
                          isMicrosoft = isMicrosoftFormsEndpoint urlStr;
                          isClickUp = isClickUpFormsEndpoint urlStr
                      in case data of
                           None \<Rightarrow> pass
                         | Some b \<Rightarrow>
                             if (isGoogle \<or> isMicrosoft \<or> isClickUp) \<and> body_truthy b then
                               (case xhr_body_reading b of
                                  Inl e \<Rightarrow> pass
                                | Inr formData \<Rightarrow>
                                    pass\<lparr> out_timers :=
                                      (if length (Object_keys formData) > 0
                                       then [(200, SendNetworkSubmission urlStr formData
                                                     isMicrosoft isClickUp)]
                                       else []) @
                                      (if isMicrosoft then [(300, CaptureMicrosoft)] else []) @
                                      (if isClickUp then [(300, CaptureClickUp)] else []) \<rparr>)
                             else pass)
                   else pass))"

text \<open>The submission the timer of \<^verbatim>\<open>interceptXHR\<close> builds when it fires (lines 1112 to 1119).\<close>

definition network_submission :: "page \<Rightarrow> string \<Rightarrow> fields \<Rightarrow> bool \<Rightarrow> bool \<Rightarrow> submission" where
  "network_submission pg urlStr formData isMicrosoft isClickUp =
     \<lparr> sub_url = href pg, sub_action = urlStr, sub_timestamp = now pg, sub_fields = formData,
       sub_title = str_or (title pg)
         (if isMicrosoft then ''Microsoft Form''
          else (if isClickUp then ''ClickUp Form'' else ''Google Form'')),
       sub_source = Some (if isMicrosoft then ''microsoft-forms''
                          else (if isClickUp then ''clickup-forms'' else ''google-forms'')) \<rparr>"

text \<open>
  What a task sends when its timer fires; \<open>doc\<close> is the document from that moment on, as
  the capture chains see it.
\<close>

definition run_task :: "(nat \<Rightarrow> snapshot) \<Rightarrow> task \<Rightarrow> submission list" where
  "run_task doc t =
     (case t of
        CaptureGoogle \<Rightarrow> cap_sent (captureGoogleFormSubmission doc)
      | CaptureMicrosoft \<Rightarrow> cap_sent (captureMicrosoftFormSubmission doc)
      | CaptureClickUp \<Rightarrow> cap_sent (captureClickUpFormSubmission doc)
      | SendNetworkSubmission urlStr formData isMicrosoft isClickUp \<Rightarrow>
          [network_submission (snap_page (doc 1)) urlStr formData isMicrosoft isClickUp])"

text \<open>
  Whether the JSON reading of \<^verbatim>\<open>interceptFetch\<close> takes the branch guarded by
  \<^verbatim>\<open>parsed['entry.'] || parsed['entry']\<close> (lines 975 to 983).
\<close>

definition uses_entry_branch :: "bool \<Rightarrow> body \<Rightarrow> bool" where
  "uses_entry_branch isGoogle b =
     (case b of
        BodyString s \<Rightarrow>
          (case JSON_parse s of
             Some parsed \<Rightarrow>
               isGoogle \<and>
               (truthy (case read_member parsed ''entry.'' of Some e \<Rightarrow> e | None \<Rightarrow> JUndefined) \<or>
                truthy (case read_member parsed ''entry'' of Some e \<Rightarrow> e | None \<Rightarrow> JUndefined))
           | None \<Rightarrow> False)
      | _ \<Rightarrow> False)"

text \<open>
  A value as \<^verbatim>\<open>extractFormData\<close> stores it: a non-empty string, or an array none of whose
  elements is falsy.
\<close>

fun stored_value :: "jsval \<Rightarrow> bool" where
  "stored_value (JStr s) = (s \<noteq> [])"
| "stored_value (JArr xs) = (xs \<noteq> [] \<and> list_all truthy xs)"
| "stored_value v = False"

subsection \<open>Auxiliary notions\<close>

text \<open>A sequence of assignments to the object of a JSON reading, in order.\<close>

definition assign_all :: "json_target \<Rightarrow> fields \<Rightarrow> json_target" where
  "assign_all formData ws = foldl (\<lambda>t w. assign_member t (fst w) (snd w)) formData ws"

text \<open>
  The states of \<^const>\<open>parse_tokens\<close> in which the members of every open object, and of the
  finished value, have distinct names.
\<close>

fun frame_ok :: "frame \<Rightarrow> bool" where
  "frame_ok (ArrayFrame xs) = True"
| "frame_ok (ObjectFrame kvs) = distinct (map fst kvs)"
| "frame_ok (MemberFrame kvs k) = distinct (map fst kvs)"

definition value_ok :: "jsval \<Rightarrow> bool" where
  "value_ok v = (case v of JObj kvs \<Rightarrow> distinct (map fst kvs) | _ \<Rightarrow> True)"

definition cfg_ok :: "expect \<times> frame list \<Rightarrow> bool" where
  "cfg_ok cfg =
     (list_all frame_ok (snd cfg) \<and> (case fst cfg of ExpEnd v \<Rightarrow> value_ok v | _ \<Rightarrow> True))"
subsection \<open>Concrete pages and forms used as test inputs\<close>

text \<open>Scenario A: a native form with an email control and a password control.\<close>

definition email_control :: element where
  "email_control =
     \<lparr> elem_name = ''email'', elem_type = ''email'', elem_disabled = False, elem_checked = False,
       elem_value = Some ''a@b.com'', elem_files = 0, elem_tagName = ''INPUT'' \<rparr>"

definition password_control :: element where
  "password_control =
     \<lparr> elem_name = ''password'', elem_type = ''password'', elem_disabled = False,
       elem_checked = False, elem_value = Some ''x'', elem_files = 0, elem_tagName = ''INPUT'' \<rparr>"

text \<open>A text control whose name is also the name of a property of \<^verbatim>\<open>Object.prototype\<close>.\<close>

definition constructor_control :: element where
  "constructor_control =
     \<lparr> elem_name = ''constructor'', elem_type = ''text'', elem_disabled = False,
       elem_checked = False, elem_value = Some ''x'', elem_files = 0, elem_tagName = ''INPUT'' \<rparr>"

definition scenario_A :: "element list" where
  "scenario_A = [email_control, password_control]"

text \<open>A Google Forms page, and a page whose hostname merely contains the known hostnames.\<close>

definition google_page :: page where
  "google_page =
     \<lparr> href = ''https://docs.google.com/forms/d/e/abc/viewform'',
       hostname = ''docs.google.com'', pathname = ''/forms/d/e/abc/viewform'',
       title = ''Survey'', now = ''2024-01-01T00:00:00.000Z'' \<rparr>"

definition lookalike_page :: page where
  "lookalike_page =
     \<lparr> href = ''https://forms.clickup.com.forms.office.com.docs.google.com.example.org/forms/d/1'',
       hostname = ''forms.clickup.com.forms.office.com.docs.google.com.example.org'',
       pathname = ''/forms/d/1'', title = ''Survey'', now = ''2024-01-01T00:00:00.000Z'' \<rparr>"

definition known_hostnames :: "string list" where
  "known_hostnames =
     [''docs.google.com'', ''forms.office.com'', ''forms.microsoft.com'', ''forms.office365.com'',
      ''forms.clickup.com'']"


text \<open>
  Scenario E: a Google Forms document whose extractor finds nothing on the first two
  invocations and one answer on the third; and a document on which nothing is ever found.
\<close>

definition late_document :: "nat \<Rightarrow> snapshot" where
  "late_document n =
     \<lparr> snap_page = google_page,
       snap_google = (if n < 3 then [] else [(''Your name'', JStr ''Ann'')]),
       snap_microsoft = [], snap_clickup = [], snap_inputs = [] \<rparr>"

definition blank_input :: input_node where
  "blank_input =
     \<lparr> in_value = ''  '', in_textContent = [], in_name = Some ''q1'', in_aria_label = None,
       in_testid = None, in_heading = None, in_label = None \<rparr>"

definition named_input :: input_node where
  "named_input =
     \<lparr> in_value = ''Ann'', in_textContent = [], in_name = Some ''q2'', in_aria_label = None,
       in_testid = None, in_heading = None, in_label = None \<rparr>"

definition empty_document :: "nat \<Rightarrow> snapshot" where
  "empty_document n =
     \<lparr> snap_page = google_page, snap_google = [], snap_microsoft = [], snap_clickup = [],
       snap_inputs = [blank_input] \<rparr>"

text \<open>The same two documents on a ClickUp Forms page.\<close>

definition clickup_page :: page where
  "clickup_page =
     \<lparr> href = ''https://forms.clickup.com/123/f/abc'', hostname = ''forms.clickup.com'',
       pathname = ''/123/f/abc'', title = [], now = ''2024-01-01T00:00:00.000Z'' \<rparr>"

definition late_clickup_document :: "nat \<Rightarrow> snapshot" where
  "late_clickup_document n =
     \<lparr> snap_page = clickup_page, snap_google = [], snap_microsoft = [],
       snap_clickup = (if n < 3 then [] else [(''Task'', JStr ''Review'')]),
       snap_inputs = [] \<rparr>"

definition empty_clickup_document :: "nat \<Rightarrow> snapshot" where
  "empty_clickup_document n =
     \<lparr> snap_page = clickup_page, snap_google = [], snap_microsoft = [], snap_clickup = [],
       snap_inputs = [blank_input] \<rparr>"

text \<open>
  A document with two submit buttons, nodes 0 and 1: both match the class selector, node 0
  also the type selector, and the \<^verbatim>\<open>:has-text\<close> selectors make \<^verbatim>\<open>querySelectorAll\<close> throw.
\<close>

definition two_buttons :: "string \<Rightarrow> nat list option" where
  "two_buttons selector =
     (if selector = ''[class*=\"SubmitButton\"]'' then Some [0, 1]
      else if selector = ''button[type=\"submit\"]'' then Some [0]
      else if str_includes selector '':has-text'' then None
      else Some [])"

text \<open>
  An ordinary page, the host's primitives (their return values stand for the response
  promise and for the result of \<^verbatim>\<open>send\<close>), and a \<^verbatim>\<open>fetch\<close> call with method \<open>POST\<close>.
\<close>

definition contact_page :: page where
  "contact_page =
     \<lparr> href = ''https://example.com/contact'', hostname = ''example.com'',
       pathname = ''/contact'', title = ''Contact'', now = ''2024-01-01T00:00:00.000Z'' \<rparr>"

definition host_fetch :: "fetch_args \<Rightarrow> string" where
  "host_fetch args = ''response''"

definition host_send :: "body option \<Rightarrow> string" where
  "host_send data = ''sent''"

definition post_request :: "string \<Rightarrow> body \<Rightarrow> fetch_args" where
  "post_request url b = (UrlString url, Some \<lparr> opt_method = JStr ''POST'', opt_body = Some b \<rparr>)"

text \<open>A form with one text control, and a request object opened for a Microsoft Forms endpoint.\<close>

definition contact_form :: form where
  "contact_form = \<lparr> form_elements = [email_control], form_action = ''https://example.com/send'' \<rparr>"

definition office_request :: xhr where
  "office_request =
     \<lparr> formtrackUrl = UrlString ''https://forms.office.com/api/Response'',
       formtrackMethod = JStr ''POST'' \<rparr>"

section \<open>Properties\<close>

subsection \<open>Strings\<close>

declare decimal.simps [simp del]

lemma startsWith_append: "startsWith s p \<longleftrightarrow> (\<exists>t. s = p @ t)"
  by (induction s p rule: startsWith.induct) auto

lemma str_includes_iff: "str_includes s sub \<longleftrightarrow> (\<exists>a b. s = a @ sub @ b)"
proof (induction s)
  case Nil
  then show ?case by auto
next
  case (Cons c cs)
  show ?case
  proof
    assume "str_includes (c # cs) sub"
    then consider "startsWith (c # cs) sub" | "str_includes cs sub" by auto
    then show "\<exists>a b. c # cs = a @ sub @ b"
    proof cases
      case 1
      then obtain t where "c # cs = sub @ t" by (auto simp: startsWith_append)
      then have "c # cs = [] @ sub @ t" by simp
      then show ?thesis by blast
    next
      case 2
      then obtain a b where "cs = a @ sub @ b" using Cons.IH by auto
      then have "c # cs = (c # a) @ sub @ b" by simp
      then show ?thesis by blast
    qed
  next
    assume "\<exists>a b. c # cs = a @ sub @ b"
    then obtain a b where ab: "c # cs = a @ sub @ b" by blast
    show "str_includes (c # cs) sub"
    proof (cases a)
      case Nil
      then have "startsWith (c # cs) sub" using ab by (auto simp: startsWith_append)
      then show ?thesis by simp
    next
      case (Cons x a')
      then have "cs = a' @ sub @ b" using ab by simp
      then have "str_includes cs sub" using Cons.IH by blast
      then show ?thesis by simp
    qed
  qed
qed

subsection \<open>GenericExtractor: password controls\<close>

lemma extract_step_password:
  "elem_type e = ''password'' \<Longrightarrow> extract_step formData e = formData"
  by (simp add: extract_step_def)

lemma foldl_extract_filter:
  "foldl extract_step acc (filter (\<lambda>e. elem_type e \<noteq> ''password'') form) =
   foldl extract_step acc form"
  by (induction form arbitrary: acc) (simp_all add: extract_step_password)

lemma store_value_keys:
  "fst ` set (own_fields (store_value formData name v)) \<subseteq>
     insert name (fst ` set (own_fields formData))"
  by (auto simp: store_value_def formData_push_def formData_set_array_def
      formData_set_string_def dom_update split: option.splits jsval.splits if_splits)

lemma extract_step_keys:
  "k \<in> fst ` set (own_fields (extract_step formData e)) \<Longrightarrow>
     k \<in> fst ` set (own_fields formData) \<or> (k = elem_name e \<and> elem_type e \<noteq> ''password'')"
  using store_value_keys[of formData "elem_name e"]
  by (auto simp: extract_step_def split: if_splits option.splits)

lemma foldl_extract_keys:
  "k \<in> fst ` set (own_fields (foldl extract_step acc form)) \<Longrightarrow>
     k \<in> fst ` set (own_fields acc) \<or>
     (\<exists>e \<in> set form. elem_name e = k \<and> elem_type e \<noteq> ''password'')"
proof (induction form arbitrary: acc)
  case Nil
  then show ?case by simp
next
  case (Cons e form)
  from Cons.prems have "k \<in> fst ` set (own_fields (foldl extract_step (extract_step acc e) form))"
    by simp
  from Cons.IH[OF this]
  consider "k \<in> fst ` set (own_fields (extract_step acc e))"
    | "\<exists>e \<in> set form. elem_name e = k \<and> elem_type e \<noteq> ''password''" by blast
  then show ?case
  proof cases
    case 1
    from extract_step_keys[OF 1] show ?thesis by auto
  next
    case 2
    then show ?thesis by auto
  qed
qed

lemma extract_scenario_A: "extractFormData scenario_A = [(''email'', JStr ''a@b.com'')]"
  by code_simp

text \<open>
  C1: the mapping \<^const>\<open>extractFormData\<close> produces owes nothing to a control of type
  password: removing every such control from the form leaves the result as it is, every key
  of the result is the name of a control that is not of type password, and the form of
  Scenario A (email \<open>a@b.com\<close>, password \<open>x\<close>) yields exactly the email entry.
\<close>

theorem extractFormData_excludes_password:
  "extractFormData (filter (\<lambda>e. elem_type e \<noteq> ''password'') form) = extractFormData form
   \<and> (\<forall>k \<in> fst ` set (extractFormData form).
         \<exists>e \<in> set form. elem_name e = k \<and> elem_type e \<noteq> ''password'')
   \<and> extractFormData scenario_A = [(''email'', JStr ''a@b.com'')]"
proof (intro conjI ballI)
  show "extractFormData (filter (\<lambda>e. elem_type e \<noteq> ''password'') form) = extractFormData form"
    by (simp add: extractFormData_def foldl_extract_filter)
next
  fix k
  assume "k \<in> fst ` set (extractFormData form)"
  then show "\<exists>e \<in> set form. elem_name e = k \<and> elem_type e \<noteq> ''password''"
    using foldl_extract_keys[of k empty_dictionary form]
    by (simp add: extractFormData_def empty_dictionary_def)
next
  show "extractFormData scenario_A = [(''email'', JStr ''a@b.com'')]"
    by (rule extract_scenario_A)
qed

theorem extractFormData_excludes_password_witness:
  "extractFormData [email_control] = extractFormData scenario_A
   \<and> ''password'' \<notin> fst ` set (extractFormData scenario_A)"
  using extractFormData_excludes_password[of scenario_A]
  by (simp add: scenario_A_def email_control_def password_control_def)

subsection \<open>ProviderClassifier\<close>

text \<open>
  C7 as stated fails: the provider tests are substring tests, so a hostname that is not
  \<open>docs.google.com\<close> but contains it is detected as Google Forms, and a hostname that
  contains several known hostnames is detected as several providers at once.
\<close>

theorem provider_detection_counterexample:
  "isGoogleForm lookalike_page \<and> hostname lookalike_page \<noteq> ''docs.google.com''
   \<and> isMicrosoftForm lookalike_page \<and> isClickUpForm lookalike_page"
  by code_simp

lemma known_host_facts:
  "\<not> str_includes (toLowerCase ''docs.google.com'') ''forms.office.com''"
  "\<not> str_includes (toLowerCase ''docs.google.com'') ''forms.microsoft.com''"
  "\<not> str_includes (toLowerCase ''docs.google.com'') ''forms.office365.com''"
  "\<not> str_includes (toLowerCase ''docs.google.com'') ''forms.clickup.com''"
  "\<not> str_includes ''forms.office.com'' ''docs.google.com''"
  "\<not> str_includes ''forms.microsoft.com'' ''docs.google.com''"
  "\<not> str_includes ''forms.office365.com'' ''docs.google.com''"
  "\<not> str_includes ''forms.clickup.com'' ''docs.google.com''"
  "\<not> str_includes (toLowerCase ''forms.office.com'') ''forms.clickup.com''"
  "\<not> str_includes (toLowerCase ''forms.microsoft.com'') ''forms.clickup.com''"
  "\<not> str_includes (toLowerCase ''forms.office365.com'') ''forms.clickup.com''"
  "\<not> str_includes (toLowerCase ''forms.clickup.com'') ''forms.office.com''"
  "\<not> str_includes (toLowerCase ''forms.clickup.com'') ''forms.microsoft.com''"
  "\<not> str_includes (toLowerCase ''forms.clickup.com'') ''forms.office365.com''"
  by code_simp+

lemma known_hostname_exclusive:
  "hostname pg \<in> set known_hostnames \<Longrightarrow> length (detected pg) \<le> 1"
  by (auto simp: known_hostnames_def detected_def isGoogleForm_def isMicrosoftForm_def
      isClickUpForm_def known_host_facts)

text \<open>
  C7, amended: a page is detected as Google Forms exactly when its hostname contains
  \<open>docs.google.com\<close> and its pathname contains \<open>/forms/\<close>, as Microsoft Forms exactly
  when its lower-cased hostname contains one of the three known hostnames, as ClickUp Forms
  exactly when its lower-cased hostname contains the one known hostname, and as native (no
  provider detected) otherwise; at most one provider is detected whenever the hostname is
  exactly one of the five known hostnames.
\<close>

theorem provider_detection:
  "(isGoogleForm pg \<longleftrightarrow>
      (\<exists>a b. hostname pg = a @ ''docs.google.com'' @ b) \<and>
      (\<exists>a b. pathname pg = a @ ''/forms/'' @ b))
   \<and> (isMicrosoftForm pg \<longleftrightarrow>
      (\<exists>a b. toLowerCase (hostname pg) = a @ ''forms.office.com'' @ b) \<or>
      (\<exists>a b. toLowerCase (hostname pg) = a @ ''forms.microsoft.com'' @ b) \<or>
      (\<exists>a b. toLowerCase (hostname pg) = a @ ''forms.office365.com'' @ b))
   \<and> (isClickUpForm pg \<longleftrightarrow>
      (\<exists>a b. toLowerCase (hostname pg) = a @ ''forms.clickup.com'' @ b))
   \<and> (detected pg = [] \<longleftrightarrow> \<not> isGoogleForm pg \<and> \<not> isMicrosoftForm pg \<and> \<not> isClickUpForm pg)
   \<and> (hostname pg \<in> set known_hostnames \<longrightarrow> length (detected pg) \<le> 1)"
proof (intro conjI)
  show "isGoogleForm pg \<longleftrightarrow>
      (\<exists>a b. hostname pg = a @ ''docs.google.com'' @ b) \<and>
      (\<exists>a b. pathname pg = a @ ''/forms/'' @ b)"
    unfolding isGoogleForm_def str_includes_iff ..
  show "isMicrosoftForm pg \<longleftrightarrow>
      (\<exists>a b. toLowerCase (hostname pg) = a @ ''forms.office.com'' @ b) \<or>
      (\<exists>a b. toLowerCase (hostname pg) = a @ ''forms.microsoft.com'' @ b) \<or>
      (\<exists>a b. toLowerCase (hostname pg) = a @ ''forms.office365.com'' @ b)"
    unfolding isMicrosoftForm_def Let_def str_includes_iff ..
  show "isClickUpForm pg \<longleftrightarrow>
      (\<exists>a b. toLowerCase (hostname pg) = a @ ''forms.clickup.com'' @ b)"
    unfolding isClickUpForm_def Let_def str_includes_iff ..
  show "detected pg = [] \<longleftrightarrow> \<not> isGoogleForm pg \<and> \<not> isMicrosoftForm pg \<and> \<not> isClickUpForm pg"
    by (simp add: detected_def)
  show "hostname pg \<in> set known_hostnames \<longrightarrow> length (detected pg) \<le> 1"
    using known_hostname_exclusive by blast
qed

theorem provider_detection_witness:
  "hostname google_page \<in> set known_hostnames \<and> length (detected google_page) \<le> 1
   \<and> isGoogleForm google_page"
proof -
  have host: "hostname google_page \<in> set known_hostnames" by code_simp
  have google: "isGoogleForm google_page" by code_simp
  show ?thesis using provider_detection[of google_page] host google by simp
qed
subsection \<open>RetryScheduler\<close>

declare google_attemptCapture.simps [simp del] clickup_attemptCapture.simps [simp del]

lemma Object_keys_empty: "Object_keys formData = [] \<longleftrightarrow> formData = []"
  by (simp add: Object_keys_def)

lemma google_retry:
  "snap_google (doc (Suc attempts)) = [] \<Longrightarrow> Suc attempts < maxAttempts \<Longrightarrow>
   google_attemptCapture doc attempts =
     (google_attemptCapture doc (Suc attempts))
       \<lparr> cap_timers := 300 # cap_timers (google_attemptCapture doc (Suc attempts)) \<rparr>"
  by (subst google_attemptCapture.simps) (simp add: Object_keys_empty Let_def)

lemma google_found:
  "snap_google (doc (Suc attempts)) \<noteq> [] \<Longrightarrow>
   google_attemptCapture doc attempts =
     \<lparr> cap_timers = [],
       cap_sent = [\<lparr> sub_url = href (snap_page (doc (Suc attempts))), sub_action = href (snap_page (doc (Suc attempts))),
         sub_timestamp = now (snap_page (doc (Suc attempts))), sub_fields = snap_google (doc (Suc attempts)),
         sub_title = str_or (title (snap_page (doc (Suc attempts)))) ''Google Form'',
         sub_source = Some ''google-forms'' \<rparr>] \<rparr>"
  by (subst google_attemptCapture.simps) (simp add: Object_keys_empty Let_def)

lemma google_exhausted:
  "snap_google (doc (Suc attempts)) = [] \<Longrightarrow> \<not> Suc attempts < maxAttempts \<Longrightarrow>
   foldl google_last_resort_step [] (snap_inputs (doc (Suc attempts))) = [] \<Longrightarrow>
   google_attemptCapture doc attempts = \<lparr> cap_timers = [], cap_sent = [] \<rparr>"
  by (subst google_attemptCapture.simps) (simp add: Object_keys_empty Let_def)

lemma google_third_attempt:
  assumes "snap_google (doc 1) = []" "snap_google (doc 2) = []" "snap_google (doc 3) \<noteq> []"
  shows "google_attemptCapture doc 0 =
           \<lparr> cap_timers = [300, 300],
             cap_sent = [\<lparr> sub_url = href (snap_page (doc 3)), sub_action = href (snap_page (doc 3)),
         sub_timestamp = now (snap_page (doc 3)), sub_fields = snap_google (doc 3),
         sub_title = str_or (title (snap_page (doc 3))) ''Google Form'',
         sub_source = Some ''google-forms'' \<rparr>] \<rparr>"
proof -
  have third: "google_attemptCapture doc 2 =
      \<lparr> cap_timers = [],
        cap_sent = [\<lparr> sub_url = href (snap_page (doc 3)), sub_action = href (snap_page (doc 3)),
         sub_timestamp = now (snap_page (doc 3)), sub_fields = snap_google (doc 3),
         sub_title = str_or (title (snap_page (doc 3))) ''Google Form'',
         sub_source = Some ''google-forms'' \<rparr>] \<rparr>"
    using google_found[of doc 2] assms(3) by simp
  have "google_attemptCapture doc 1 =
      (google_attemptCapture doc 2)\<lparr> cap_timers := 300 # cap_timers (google_attemptCapture doc 2) \<rparr>"
    using google_retry[of doc 1] assms(2) by (simp add: maxAttempts_def numeral_2_eq_2)
  then have second: "google_attemptCapture doc 1 =
      \<lparr> cap_timers = [300],
        cap_sent = [\<lparr> sub_url = href (snap_page (doc 3)), sub_action = href (snap_page (doc 3)),
         sub_timestamp = now (snap_page (doc 3)), sub_fields = snap_google (doc 3),
         sub_title = str_or (title (snap_page (doc 3))) ''Google Form'',
         sub_source = Some ''google-forms'' \<rparr>] \<rparr>"
    by (simp add: third)
  have "google_attemptCapture doc 0 =
      (google_attemptCapture doc 1)\<lparr> cap_timers := 300 # cap_timers (google_attemptCapture doc 1) \<rparr>"
    using google_retry[of doc 0] assms(1) by (simp add: maxAttempts_def)
  then show ?thesis using second by simp
qed

lemma google_all_empty:
  assumes "snap_google (doc 1) = []" "snap_google (doc 2) = []" "snap_google (doc 3) = []"
    and "foldl google_last_resort_step [] (snap_inputs (doc 3)) = []"
  shows "google_attemptCapture doc 0 = \<lparr> cap_timers = [300, 300], cap_sent = [] \<rparr>"
proof -
  have third: "google_attemptCapture doc 2 = \<lparr> cap_timers = [], cap_sent = [] \<rparr>"
    using google_exhausted[of doc 2] assms(3,4) by (simp add: maxAttempts_def)
  have "google_attemptCapture doc 1 =
      (google_attemptCapture doc 2)\<lparr> cap_timers := 300 # cap_timers (google_attemptCapture doc 2) \<rparr>"
    using google_retry[of doc 1] assms(2) by (simp add: maxAttempts_def numeral_2_eq_2)
  then have second: "google_attemptCapture doc 1 = \<lparr> cap_timers = [300], cap_sent = [] \<rparr>"
    by (simp add: third)
  have "google_attemptCapture doc 0 =
      (google_attemptCapture doc 1)\<lparr> cap_timers := 300 # cap_timers (google_attemptCapture doc 1) \<rparr>"
    using google_retry[of doc 0] assms(1) by (simp add: maxAttempts_def)
  then show ?thesis using second by simp
qed

lemma clickup_retry:
  "snap_clickup (doc (Suc attempts)) = [] \<Longrightarrow> Suc attempts < maxAttempts \<Longrightarrow>
   clickup_attemptCapture doc attempts =
     (clickup_attemptCapture doc (Suc attempts))
       \<lparr> cap_timers := 300 # cap_timers (clickup_attemptCapture doc (Suc attempts)) \<rparr>"
  by (subst clickup_attemptCapture.simps) (simp add: Object_keys_empty Let_def)

lemma clickup_found:
  "snap_clickup (doc (Suc attempts)) \<noteq> [] \<Longrightarrow>
   clickup_attemptCapture doc attempts =
     \<lparr> cap_timers = [],
       cap_sent = [\<lparr> sub_url = href (snap_page (doc (Suc attempts))), sub_action = href (snap_page (doc (Suc attempts))),
         sub_timestamp = now (snap_page (doc (Suc attempts))), sub_fields = snap_clickup (doc (Suc attempts)),
         sub_title = str_or (title (snap_page (doc (Suc attempts)))) ''ClickUp Form'',
         sub_source = Some ''clickup-forms'' \<rparr>] \<rparr>"
  by (subst clickup_attemptCapture.simps) (simp add: Object_keys_empty Let_def)

lemma clickup_exhausted:
  "snap_clickup (doc (Suc attempts)) = [] \<Longrightarrow> \<not> Suc attempts < maxAttempts \<Longrightarrow>
   foldl clickup_last_resort_step [] (snap_inputs (doc (Suc attempts))) = [] \<Longrightarrow>
   clickup_attemptCapture doc attempts = \<lparr> cap_timers = [], cap_sent = [] \<rparr>"
  by (subst clickup_attemptCapture.simps) (simp add: Object_keys_empty Let_def)

lemma clickup_third_attempt:
  assumes "snap_clickup (doc 1) = []" "snap_clickup (doc 2) = []" "snap_clickup (doc 3) \<noteq> []"
  shows "clickup_attemptCapture doc 0 =
           \<lparr> cap_timers = [300, 300],
             cap_sent = [\<lparr> sub_url = href (snap_page (doc 3)), sub_action = href (snap_page (doc 3)),
         sub_timestamp = now (snap_page (doc 3)), sub_fields = snap_clickup (doc 3),
         sub_title = str_or (title (snap_page (doc 3))) ''ClickUp Form'',
         sub_source = Some ''clickup-forms'' \<rparr>] \<rparr>"
proof -
  have third: "clickup_attemptCapture doc 2 =
      \<lparr> cap_timers = [],
        cap_sent = [\<lparr> sub_url = href (snap_page (doc 3)), sub_action = href (snap_page (doc 3)),
         sub_timestamp = now (snap_page (doc 3)), sub_fields = snap_clickup (doc 3),
         sub_title = str_or (title (snap_page (doc 3))) ''ClickUp Form'',
         sub_source = Some ''clickup-forms'' \<rparr>] \<rparr>"
    using clickup_found[of doc 2] assms(3) by simp
  have "clickup_attemptCapture doc 1 =
      (clickup_attemptCapture doc 2)\<lparr> cap_timers := 300 # cap_timers (clickup_attemptCapture doc 2) \<rparr>"
    using clickup_retry[of doc 1] assms(2) by (simp add: maxAttempts_def numeral_2_eq_2)
  then have second: "clickup_attemptCapture doc 1 =
      \<lparr> cap_timers = [300],
        cap_sent = [\<lparr> sub_url = href (snap_page (doc 3)), sub_action = href (snap_page (doc 3)),
         sub_timestamp = now (snap_page (doc 3)), sub_fields = snap_clickup (doc 3),
         sub_title = str_or (title (snap_page (doc 3))) ''ClickUp Form'',
         sub_source = Some ''clickup-forms'' \<rparr>] \<rparr>"
    by (simp add: third)
  have "clickup_attemptCapture doc 0 =
      (clickup_attemptCapture doc 1)\<lparr> cap_timers := 300 # cap_timers (clickup_attemptCapture doc 1) \<rparr>"
    using clickup_retry[of doc 0] assms(1) by (simp add: maxAttempts_def)
  then show ?thesis using second by simp
qed

lemma clickup_all_empty:
  assumes "snap_clickup (doc 1) = []" "snap_clickup (doc 2) = []" "snap_clickup (doc 3) = []"
    and "foldl clickup_last_resort_step [] (snap_inputs (doc 3)) = []"
  shows "clickup_attemptCapture doc 0 = \<lparr> cap_timers = [300, 300], cap_sent = [] \<rparr>"
proof -
  have third: "clickup_attemptCapture doc 2 = \<lparr> cap_timers = [], cap_sent = [] \<rparr>"
    using clickup_exhausted[of doc 2] assms(3,4) by (simp add: maxAttempts_def)
  have "clickup_attemptCapture doc 1 =
      (clickup_attemptCapture doc 2)\<lparr> cap_timers := 300 # cap_timers (clickup_attemptCapture doc 2) \<rparr>"
    using clickup_retry[of doc 1] assms(2) by (simp add: maxAttempts_def numeral_2_eq_2)
  then have second: "clickup_attemptCapture doc 1 = \<lparr> cap_timers = [300], cap_sent = [] \<rparr>"
    by (simp add: third)
  have "clickup_attemptCapture doc 0 =
      (clickup_attemptCapture doc 1)\<lparr> cap_timers := 300 # cap_timers (clickup_attemptCapture doc 1) \<rparr>"
    using clickup_retry[of doc 0] assms(1) by (simp add: maxAttempts_def)
  then show ?thesis using second by simp
qed

text \<open>
  C6: the two retried chains, of \<^const>\<open>captureGoogleFormSubmission\<close> and of
  \<^const>\<open>captureClickUpFormSubmission\<close>. On a page of the provider, when the extractor returns
  an empty mapping at the first two invocations of the chain and a non-empty one at the
  third, the chain sets two timers of 300 ms and sends exactly one submission: its fields
  are the mapping of the third invocation, its URL, title and time are those of the page at
  that invocation, and its source is the provider. When the extractor returns an empty
  mapping at all three invocations and the last-resort pass over the document of the third
  finds nothing, the chain sets the same two timers and sends nothing. Each chain is a total
  function whose result has no error value: nothing is raised on either path.
\<close>

theorem retry_chain:
  "(isGoogleForm (snap_page (doc 1)) \<longrightarrow>
      (snap_google (doc 1) = [] \<and> snap_google (doc 2) = [] \<and> snap_google (doc 3) \<noteq> [] \<longrightarrow>
         captureGoogleFormSubmission doc =
           \<lparr> cap_timers = [300, 300],
             cap_sent = [\<lparr> sub_url = href (snap_page (doc 3)),
                          sub_action = href (snap_page (doc 3)),
                          sub_timestamp = now (snap_page (doc 3)),
                          sub_fields = snap_google (doc 3),
                          sub_title = str_or (title (snap_page (doc 3))) ''Google Form'',
                          sub_source = Some ''google-forms'' \<rparr>] \<rparr>)
      \<and> (snap_google (doc 1) = [] \<and> snap_google (doc 2) = [] \<and> snap_google (doc 3) = [] \<and>
         foldl google_last_resort_step [] (snap_inputs (doc 3)) = [] \<longrightarrow>
         captureGoogleFormSubmission doc = \<lparr> cap_timers = [300, 300], cap_sent = [] \<rparr>))
   \<and> (isClickUpForm (snap_page (doc 1)) \<longrightarrow>
      (snap_clickup (doc 1) = [] \<and> snap_clickup (doc 2) = [] \<and> snap_clickup (doc 3) \<noteq> [] \<longrightarrow>
         captureClickUpFormSubmission doc =
           \<lparr> cap_timers = [300, 300],
             cap_sent = [\<lparr> sub_url = href (snap_page (doc 3)),
                          sub_action = href (snap_page (doc 3)),
                          sub_timestamp = now (snap_page (doc 3)),
                          sub_fields = snap_clickup (doc 3),
                          sub_title = str_or (title (snap_page (doc 3))) ''ClickUp Form'',
                          sub_source = Some ''clickup-forms'' \<rparr>] \<rparr>)
      \<and> (snap_clickup (doc 1) = [] \<and> snap_clickup (doc 2) = [] \<and> snap_clickup (doc 3) = [] \<and>
         foldl clickup_last_resort_step [] (snap_inputs (doc 3)) = [] \<longrightarrow>
         captureClickUpFormSubmission doc = \<lparr> cap_timers = [300, 300], cap_sent = [] \<rparr>))"
  using google_third_attempt[of doc] google_all_empty[of doc]
    clickup_third_attempt[of doc] clickup_all_empty[of doc]
  by (simp add: captureGoogleFormSubmission_def captureClickUpFormSubmission_def)

theorem retry_chain_witness:
  "cap_timers (captureGoogleFormSubmission late_document) = [300, 300]
   \<and> map sub_fields (cap_sent (captureGoogleFormSubmission late_document)) =
       [[(''Your name'', JStr ''Ann'')]]
   \<and> map sub_source (cap_sent (captureGoogleFormSubmission late_document)) =
       [Some ''google-forms'']
   \<and> map sub_title (cap_sent (captureGoogleFormSubmission late_document)) = [''Survey'']
   \<and> captureGoogleFormSubmission empty_document = \<lparr> cap_timers = [300, 300], cap_sent = [] \<rparr>
   \<and> cap_timers (captureClickUpFormSubmission late_clickup_document) = [300, 300]
   \<and> map sub_fields (cap_sent (captureClickUpFormSubmission late_clickup_document)) =
       [[(''Task'', JStr ''Review'')]]
   \<and> map sub_source (cap_sent (captureClickUpFormSubmission late_clickup_document)) =
       [Some ''clickup-forms'']
   \<and> map sub_title (cap_sent (captureClickUpFormSubmission late_clickup_document)) =
       [''ClickUp Form'']
   \<and> captureClickUpFormSubmission empty_clickup_document =
       \<lparr> cap_timers = [300, 300], cap_sent = [] \<rparr>"
proof -
  have google: "isGoogleForm google_page" by code_simp
  have clickup: "isClickUpForm clickup_page" by code_simp
  have title: "str_or (title google_page) ''Google Form'' = ''Survey''" by code_simp
  have untitled: "str_or (title clickup_page) ''ClickUp Form'' = ''ClickUp Form''" by code_simp
  have salvage: "foldl google_last_resort_step [] [blank_input] = []" by code_simp
  have salvage': "foldl clickup_last_resort_step [] [blank_input] = []" by code_simp
  have late: "captureGoogleFormSubmission late_document =
      \<lparr> cap_timers = [300, 300],
        cap_sent = [\<lparr> sub_url = href google_page, sub_action = href google_page,
                     sub_timestamp = now google_page,
                     sub_fields = [(''Your name'', JStr ''Ann'')],
                     sub_title = ''Survey'', sub_source = Some ''google-forms'' \<rparr>] \<rparr>"
    using retry_chain[of late_document] google title by (simp add: late_document_def)
  have empty: "captureGoogleFormSubmission empty_document =
      \<lparr> cap_timers = [300, 300], cap_sent = [] \<rparr>"
    using retry_chain[of empty_document] google salvage by (simp add: empty_document_def)
  have late': "captureClickUpFormSubmission late_clickup_document =
      \<lparr> cap_timers = [300, 300],
        cap_sent = [\<lparr> sub_url = href clickup_page, sub_action = href clickup_page,
                     sub_timestamp = now clickup_page,
                     sub_fields = [(''Task'', JStr ''Review'')],
                     sub_title = ''ClickUp Form'', sub_source = Some ''clickup-forms'' \<rparr>] \<rparr>"
    using retry_chain[of late_clickup_document] clickup untitled
    by (simp add: late_clickup_document_def)
  have empty': "captureClickUpFormSubmission empty_clickup_document =
      \<lparr> cap_timers = [300, 300], cap_sent = [] \<rparr>"
    using retry_chain[of empty_clickup_document] clickup salvage'
    by (simp add: empty_clickup_document_def)
  show ?thesis unfolding late empty late' empty' by simp
qed

subsection \<open>SubmitTriggerWatcher\<close>

lemma attach_button_watched: "watched (d n) \<Longrightarrow> attach_button d b n = d n"
  by (auto simp: attach_button_def)

lemma attach_button_mono: "watched (d n) \<Longrightarrow> watched (attach_button d b n)"
  by (auto simp: attach_button_def)

lemma attach_button_inv: "engine_state (d n) \<Longrightarrow> engine_state (attach_button d b n)"
  by (auto simp: attach_button_def engine_state_def watched_def)

lemma foldl_attach_button:
  "(watched (d n) \<longrightarrow> foldl attach_button d bs n = d n) \<and>
   (engine_state (d n) \<longrightarrow> engine_state (foldl attach_button d bs n))"
proof (induction bs arbitrary: d)
  case Nil
  then show ?case by simp
next
  case (Cons b bs)
  show ?case
    using Cons.IH[of "attach_button d b"] attach_button_watched[of d n b]
      attach_button_mono[of d n b] attach_button_inv[of d n b]
    by auto
qed

lemma attach_selector_props:
  "(watched (d n) \<longrightarrow> attach_selector query d sel n = d n) \<and>
   (engine_state (d n) \<longrightarrow> engine_state (attach_selector query d sel n))"
  using foldl_attach_button[of d n] by (auto simp: attach_selector_def split: option.splits)

lemma foldl_attach_selector:
  "(watched (d n) \<longrightarrow> foldl (attach_selector query) d sels n = d n) \<and>
   (engine_state (d n) \<longrightarrow> engine_state (foldl (attach_selector query) d sels n))"
proof (induction sels arbitrary: d)
  case Nil
  then show ?case by simp
next
  case (Cons sel sels)
  show ?case
    using Cons.IH[of "attach_selector query d sel"] attach_selector_props[of d n query sel]
    by auto
qed

lemma attachListeners_watched: "watched (d n) \<Longrightarrow> attachListeners query d n = d n"
  using foldl_attach_selector[of d n query] by (simp add: attachListeners_def)

lemma attachListeners_inv: "engine_state (d n) \<Longrightarrow> engine_state (attachListeners query d n)"
  using foldl_attach_selector[of d n query] by (simp add: attachListeners_def)

lemma attach_runs_inv: "engine_state (d n) \<Longrightarrow> engine_state (attach_runs queries d n)"
  unfolding attach_runs_def
  by (induction queries arbitrary: d) (simp_all add: attachListeners_inv)

lemma attach_runs_watched: "watched (d n) \<Longrightarrow> attach_runs queries d n = d n"
  unfolding attach_runs_def
proof (induction queries arbitrary: d)
  case Nil
  then show ?case by simp
next
  case (Cons q qs)
  have "watched (attachListeners q d n)"
    using Cons.prems attachListeners_watched by simp
  then show ?case
    using Cons.IH[of "attachListeners q d"] Cons.prems attachListeners_watched by simp
qed

lemma fresh_engine_state: "engine_state (fresh_document n)"
  by (simp add: fresh_document_def engine_state_def)

text \<open>
  C9: after any number of runs of \<^const>\<open>attachListeners\<close> on a page the engine found
  untouched, whatever the queries return at each run, every control carries either no
  engine listener or exactly one click listener and one mousedown listener; a control that
  is already marked is left exactly as it is by a run (no listener is added, the mark stays),
  and it is still marked after any number of runs.
\<close>

theorem watcher_attaches_once:
  "(listeners (attach_runs queries fresh_document n) = [] \<or>
    listeners (attach_runs queries fresh_document n) = [ClickCapture, MousedownCapture])
   \<and> (watched (d n) \<longrightarrow> attachListeners query d n = d n)
   \<and> (watched (d n) \<longrightarrow> watched (attach_runs queries d n))"
proof (intro conjI impI)
  show "listeners (attach_runs queries fresh_document n) = [] \<or>
    listeners (attach_runs queries fresh_document n) = [ClickCapture, MousedownCapture]"
    using attach_runs_inv[of fresh_document n queries] fresh_engine_state[of n]
    by (auto simp: engine_state_def)
next
  assume "watched (d n)"
  then show "attachListeners query d n = d n" by (rule attachListeners_watched)
next
  assume "watched (d n)"
  then show "watched (attach_runs queries d n)" by (simp add: attach_runs_watched)
qed

theorem watcher_attaches_once_witness:
  "watched (attachListeners two_buttons fresh_document 0)
   \<and> attachListeners two_buttons (attachListeners two_buttons fresh_document) 0 =
       attachListeners two_buttons fresh_document 0
   \<and> listeners (attach_runs [two_buttons, two_buttons, two_buttons] fresh_document 0) =
       [ClickCapture, MousedownCapture]"
proof -
  have w: "watched (attachListeners two_buttons fresh_document 0)" by code_simp
  have l: "listeners (attach_runs [two_buttons, two_buttons, two_buttons] fresh_document 0) \<noteq> []"
    by code_simp
  show ?thesis
    using w l
      watcher_attaches_once[of "[two_buttons, two_buttons, two_buttons]" 0
        "attachListeners two_buttons fresh_document" two_buttons]
    by simp
qed

subsection \<open>NetworkInterceptor: keys that contain \<open>password\<close>\<close>

lemma toLowerCase_drop: "toLowerCase (drop n s) = drop n (toLowerCase s)"
  by (simp add: toLowerCase_def drop_map)

lemma str_includes_drop: "str_includes (drop n s) sub \<Longrightarrow> str_includes s sub"
proof -
  assume "str_includes (drop n s) sub"
  then obtain a b where "drop n s = a @ sub @ b" by (auto simp: str_includes_iff)
  then have "s = (take n s @ a) @ sub @ b" by (metis append_take_drop_id append.assoc)
  then show ?thesis unfolding str_includes_iff by blast
qed

lemma has_password_drop: "has_password (drop n key) \<Longrightarrow> has_password key"
  by (simp add: has_password_def toLowerCase_drop str_includes_drop)

lemma has_password_replace_entry_dot: "has_password (replace_entry_dot key) \<Longrightarrow> has_password key"
  by (auto simp: replace_entry_dot_def has_password_drop split: if_splits)

subsection \<open>The members of a parsed value\<close>

lemma deliver_ok:
  "list_all frame_ok stack \<Longrightarrow> value_ok v \<Longrightarrow> deliver v stack = Some cfg \<Longrightarrow> cfg_ok cfg"
  by (auto simp: deliver_def cfg_ok_def distinct_update split: list.splits frame.splits)

lemma token_value_ok: "token_value t = Some v \<Longrightarrow> value_ok v"
  by (auto simp: token_value_def value_ok_def split: token.splits)

lemma start_value_ok:
  assumes "list_all frame_ok stack" and "start_value t stack = Some cfg"
  shows "cfg_ok cfg"
proof (cases "t = TLBracket \<or> t = TLBrace")
  case True
  then show ?thesis using assms by (auto simp: start_value_def cfg_ok_def)
next
  case False
  then obtain v where "token_value t = Some v" and "deliver v stack = Some cfg"
    using assms(2) by (auto simp: start_value_def split: token.splits option.splits)
  then show ?thesis using deliver_ok[OF assms(1) token_value_ok] by blast
qed

lemma start_key_ok:
  "list_all frame_ok stack \<Longrightarrow> start_key t stack = Some cfg \<Longrightarrow> cfg_ok cfg"
  by (auto simp: start_key_def cfg_ok_def split: token.splits list.splits frame.splits)

lemma close_array_ok:
  assumes "list_all frame_ok stack" and "close_array stack = Some cfg"
  shows "cfg_ok cfg"
proof -
  from assms(2) obtain xs st where "stack = ArrayFrame xs # st" and "deliver (JArr xs) st = Some cfg"
    by (auto simp: close_array_def split: list.splits frame.splits)
  moreover have "value_ok (JArr xs)" by (simp add: value_ok_def)
  ultimately show ?thesis using deliver_ok[of st "JArr xs" cfg] assms(1) by simp
qed

lemma close_object_ok:
  assumes "list_all frame_ok stack" and "close_object stack = Some cfg"
  shows "cfg_ok cfg"
proof -
  from assms(2) obtain kvs st where st: "stack = ObjectFrame kvs # st"
    and "deliver (JObj kvs) st = Some cfg"
    by (auto simp: close_object_def split: list.splits frame.splits)
  moreover have "value_ok (JObj kvs)" using assms(1) st by (simp add: value_ok_def)
  ultimately show ?thesis using deliver_ok[of st "JObj kvs" cfg] assms(1) by simp
qed

lemma parse_step_ok:
  assumes "cfg_ok cfg" and "parse_step cfg t = Some cfg'"
  shows "cfg_ok cfg'"
proof -
  obtain e stack where cfg: "cfg = (e, stack)" by (cases cfg)
  have stack: "list_all frame_ok stack" using assms(1) cfg by (simp add: cfg_ok_def)
  have same: "\<And>e'. (\<forall>v. e' \<noteq> ExpEnd v) \<Longrightarrow> cfg_ok (e', stack)"
    using stack by (auto simp: cfg_ok_def split: expect.splits)
  note rules = start_value_ok[OF stack] start_key_ok[OF stack] close_array_ok[OF stack]
    close_object_ok[OF stack]
  show ?thesis
  proof (cases e)
    case ExpValue
    then show ?thesis using assms(2) rules by (simp add: parse_step_def cfg)
  next
    case ExpValueOrClose
    then show ?thesis using assms(2) rules by (simp add: parse_step_def cfg split: if_splits)
  next
    case ExpKeyOrClose
    then show ?thesis using assms(2) rules by (simp add: parse_step_def cfg split: if_splits)
  next
    case ExpKey
    then show ?thesis using assms(2) rules by (simp add: parse_step_def cfg)
  next
    case ExpColon
    then have "cfg' = (ExpValue, stack)"
      using assms(2) by (simp add: parse_step_def cfg split: if_splits)
    then show ?thesis using same[of ExpValue] by simp
  next
    case ExpCommaOrClose
    then consider "cfg' = (ExpValue, stack)" | "cfg' = (ExpKey, stack)"
      | "close_array stack = Some cfg'" | "close_object stack = Some cfg'"
      using assms(2)
      by (auto simp: parse_step_def cfg split: if_splits list.splits frame.splits)
    then show ?thesis using same[of ExpValue] same[of ExpKey] rules by cases auto
  next
    case (ExpEnd v)
    then show ?thesis using assms(2) by (simp add: parse_step_def cfg)
  qed
qed

lemma parse_tokens_ok: "cfg_ok cfg \<Longrightarrow> parse_tokens cfg ts = Some v \<Longrightarrow> value_ok v"
proof (induction ts arbitrary: cfg)
  case Nil
  then show ?case by (auto simp: cfg_ok_def split: expect.splits)
next
  case (Cons t ts)
  from Cons.prems(2) obtain cfg' where step: "parse_step cfg t = Some cfg'"
    and rest: "parse_tokens cfg' ts = Some v"
    by (auto split: option.splits)
  from parse_step_ok[OF Cons.prems(1) step] have "cfg_ok cfg'" .
  from Cons.IH[OF this rest] show ?case .
qed

lemma JSON_parse_distinct: "JSON_parse s = Some (JObj kvs) \<Longrightarrow> distinct (map fst kvs)"
proof -
  assume "JSON_parse s = Some (JObj kvs)"
  then obtain ts where "parse_tokens (ExpValue, []) ts = Some (JObj kvs)"
    by (auto simp: JSON_parse_def split: option.splits)
  moreover have "cfg_ok (ExpValue, [])" by (simp add: cfg_ok_def)
  ultimately have "value_ok (JObj kvs)" using parse_tokens_ok by blast
  then show ?thesis by (simp add: value_ok_def)
qed

lemma distinct_count:
  "distinct (map fst ws) \<Longrightarrow> length (filter (\<lambda>w. fst w = k) ws) \<le> 1"
proof (induction ws)
  case Nil
  then show ?case by simp
next
  case (Cons w ws)
  show ?case
  proof (cases "fst w = k")
    case True
    then have "k \<notin> fst ` set ws" using Cons.prems by auto
    then have "filter (\<lambda>w. fst w = k) ws = []" by (auto simp: filter_empty_conv)
    then show ?thesis using True by simp
  next
    case False
    then show ?thesis using Cons by simp
  qed
qed

lemma proto_not_index: "\<not> is_index ''__proto__''"
  by code_simp

lemma ordered_entries_proto:
  "filter (\<lambda>w. fst w = ''__proto__'') (ordered_entries kvs) =
   filter (\<lambda>w. fst w = ''__proto__'') kvs"
proof -
  have "filter (\<lambda>w. fst w = ''__proto__'') (filter (\<lambda>kv. is_index (fst kv)) kvs) = []"
    using proto_not_index by (auto simp: filter_empty_conv)
  moreover have "filter (\<lambda>w. fst w = ''__proto__'') (filter (\<lambda>kv. \<not> is_index (fst kv)) kvs) =
                 filter (\<lambda>w. fst w = ''__proto__'') kvs"
    using proto_not_index by (auto intro: filter_cong)
  ultimately show ?thesis by (simp add: ordered_entries_def filter_sort)
qed

lemma digit_char_digit: "d < 10 \<Longrightarrow> digit_char d \<in> set ''0123456789''"
  using nth_mem[of d "''0123456789''"] by (simp add: digit_char_def)

lemma decimal_last: "last (decimal n) = digit_char (n mod 10)"
  by (subst decimal.simps) simp

lemma decimal_not_proto: "decimal n \<noteq> ''__proto__''"
proof
  assume "decimal n = ''__proto__''"
  then have "last (decimal n) = CHR ''_''" by simp
  then have "digit_char (n mod 10) = CHR ''_''" by (simp add: decimal_last)
  moreover have "digit_char (n mod 10) \<in> set ''0123456789''" by (rule digit_char_digit) simp
  ultimately show False by simp
qed

lemma index_keys_proto:
  "filter (\<lambda>w. fst w = ''__proto__'') (zip (map decimal ns) xs) = []"
proof -
  have "\<forall>w \<in> set (zip (map decimal ns) xs). fst w \<noteq> ''__proto__''"
  proof
    fix w
    assume w: "w \<in> set (zip (map decimal ns) xs)"
    obtain a b where ab: "w = (a, b)" by (cases w)
    then have "a \<in> set (map decimal ns)" using w set_zip_leftD by fastforce
    then show "fst w \<noteq> ''__proto__''" using decimal_not_proto ab by auto
  qed
  then show ?thesis by (auto simp: filter_empty_conv)
qed

lemma own_entries_one_proto:
  assumes "JSON_parse s = Some parsed" and "own_entries parsed = Some ms"
  shows "length (filter (\<lambda>w. fst w = ''__proto__'') ms) \<le> 1"
proof (cases parsed)
  case (JObj kvs)
  then have "distinct (map fst kvs)" using assms(1) JSON_parse_distinct by simp
  then have "length (filter (\<lambda>w. fst w = ''__proto__'') kvs) \<le> 1" by (rule distinct_count)
  moreover have "ms = ordered_entries kvs" using assms(2) JObj by (simp add: own_entries_def)
  ultimately show ?thesis by (simp add: ordered_entries_proto)
next
  case (JArr xs)
  then have "ms = zip (map decimal [0..<length xs]) xs" using assms(2) by (simp add: own_entries_def)
  then show ?thesis by (simp add: index_keys_proto)
next
  case (JStr str)
  then have "ms = zip (map decimal [0..<length str]) (map (\<lambda>c. JStr [c]) str)"
    using assms(2) by (simp add: own_entries_def)
  then show ?thesis by (simp add: index_keys_proto)
qed (use assms(2) in \<open>auto simp: own_entries_def\<close>)

subsection \<open>Mappings left by a sequence of assignments\<close>

lemma map_of_rev_filter_key:
  "map_of (rev (filter (\<lambda>w. P (fst w)) ws)) k = (if P k then map_of (rev ws) k else None)"
  by (induction ws) (auto simp: map_add_def split: option.splits)

lemma map_of_rev_filter_other:
  "\<forall>w \<in> set ws. \<not> Q w \<longrightarrow> fst w \<noteq> k \<Longrightarrow> map_of (rev (filter Q ws)) k = map_of (rev ws) k"
  by (induction ws) (auto simp: map_add_def split: option.splits)

lemma map_of_rev_map_filter:
  "\<forall>m \<in> set ms. \<not> Q m \<longrightarrow> fst (c m) \<noteq> k \<Longrightarrow>
   map_of (rev (map c (filter Q ms))) k = map_of (rev (map c ms)) k"
  by (induction ms) (auto simp: map_add_def split: option.splits)

lemma foldl_formdata_raised: "foldl formdata_step (Inl e) entries = Inl e"
  by (induction entries) (simp_all add: formdata_step_def)

lemma formdata_step_map:
  assumes "formdata_step (Inr t) (k, v) = Inr t'"
  shows "map_of (filled_fields t') =
           (if \<not> has_password k \<and> k \<noteq> ''__proto__''
            then (map_of (filled_fields t))(k \<mapsto> entry_jsval v)
            else map_of (filled_fields t))"
  using assms
  by (auto simp: formdata_step_def assign_formdata_def update_conv'
      split: if_splits formdata_value.splits)

lemma foldl_formdata_map:
  "foldl formdata_step (Inr t) entries = Inr t' \<Longrightarrow>
   map_of (filled_fields t') =
     map_of (filled_fields t) ++
     map_of (rev (map (\<lambda>(k, v). (k, entry_jsval v))
                    (filter (\<lambda>(k, v). \<not> has_password k \<and> k \<noteq> ''__proto__'') entries)))"
proof (induction entries arbitrary: t)
  case Nil
  then show ?case by simp
next
  case (Cons e entries)
  obtain k v where e: "e = (k, v)" by (cases e)
  show ?case
  proof (cases "formdata_step (Inr t) e")
    case (Inl err)
    then show ?thesis using Cons.prems by (simp add: foldl_formdata_raised)
  next
    case (Inr t1)
    then have rest: "foldl formdata_step (Inr t1) entries = Inr t'" using Cons.prems by simp
    have "map_of (filled_fields t1) =
          (if \<not> has_password k \<and> k \<noteq> ''__proto__''
           then (map_of (filled_fields t))(k \<mapsto> entry_jsval v)
           else map_of (filled_fields t))"
      using formdata_step_map[of t k v t1] Inr e by simp
    then show ?thesis
      using Cons.IH[OF rest] by (auto simp: e fun_eq_iff map_add_def split: option.splits)
  qed
qed

lemma foldl_formdata_returns:
  "\<forall>(k, v) \<in> set entries. k = ''__proto__'' \<longrightarrow> (\<exists>str. v = FormText str) \<Longrightarrow>
   \<not> file_prototype t \<Longrightarrow>
   \<exists>t'. foldl formdata_step (Inr t) entries = Inr t'"
proof (induction entries arbitrary: t)
  case Nil
  then show ?case by simp
next
  case (Cons e entries)
  obtain k v where e: "e = (k, v)" by (cases e)
  have "\<exists>t1. formdata_step (Inr t) e = Inr t1 \<and> \<not> file_prototype t1"
    using Cons.prems
    by (auto simp: e formdata_step_def assign_formdata_def split: formdata_value.splits)
  then obtain t1 where t1: "formdata_step (Inr t) e = Inr t1" "\<not> file_prototype t1" by blast
  have "\<forall>(k, v) \<in> set entries. k = ''__proto__'' \<longrightarrow> (\<exists>str. v = FormText str)"
    using Cons.prems(1) by simp
  from Cons.IH[OF this t1(2)] show ?case using t1(1) by simp
qed

lemma foldl_urlencoded_map:
  "map_of (foldl urlencoded_step acc params) =
     map_of acc ++
     map_of (rev (map (\<lambda>(k, v). (replace_entry_dot k, JStr v))
                    (filter (\<lambda>(k, v). \<not> has_password k \<and> replace_entry_dot k \<noteq> ''__proto__'')
                       params)))"
proof (induction params arbitrary: acc)
  case Nil
  then show ?case by simp
next
  case (Cons p params)
  obtain k v where p: "p = (k, v)" by (cases p)
  have "map_of (foldl urlencoded_step acc (p # params)) =
        map_of (urlencoded_step acc p) ++
        map_of (rev (map (\<lambda>(k, v). (replace_entry_dot k, JStr v))
                    (filter (\<lambda>(k, v). \<not> has_password k \<and> replace_entry_dot k \<noteq> ''__proto__'')
                       params)))"
    using Cons.IH[of "urlencoded_step acc p"] by simp
  moreover have "map_of (urlencoded_step acc p) =
        (if \<not> has_password k \<and> replace_entry_dot k \<noteq> ''__proto__''
         then (map_of acc)(replace_entry_dot k \<mapsto> JStr v)
         else map_of acc)"
    by (simp add: p urlencoded_step_def assign_entry_def update_conv' replace_entry_dot_def)
  ultimately show ?case
    by (auto simp: p fun_eq_iff map_add_def split: option.splits)
qed

lemma assign_member_other:
  "k \<noteq> ''__proto__'' \<Longrightarrow>
   map_of (target_fields (assign_member t key v)) k =
     (if key = k then Some v else map_of (target_fields t) k)"
  by (auto simp: assign_member_def update_conv' split: jsval.splits)

lemma assign_all_other:
  "k \<noteq> ''__proto__'' \<Longrightarrow>
   map_of (target_fields (assign_all t ws)) k = (map_of (target_fields t) ++ map_of (rev ws)) k"
proof (induction ws arbitrary: t)
  case Nil
  then show ?case by (simp add: assign_all_def)
next
  case (Cons w ws)
  have "assign_all t (w # ws) = assign_all (assign_member t (fst w) (snd w)) ws"
    by (simp add: assign_all_def)
  then show ?case
    using Cons.IH[OF Cons.prems, of "assign_member t (fst w) (snd w)"]
      assign_member_other[OF Cons.prems, of t "fst w" "snd w"]
    by (cases w) (auto simp: map_add_def split: option.splits)
qed

lemma assign_member_keys:
  "fst ` set (target_fields (assign_member t key v)) \<subseteq> insert key (fst ` set (target_fields t))"
  by (auto simp: assign_member_def dom_update split: jsval.splits if_splits)

lemma assign_all_keys:
  "fst ` set (target_fields (assign_all t ws)) \<subseteq> fst ` set (target_fields t) \<union> fst ` set ws"
proof (induction ws arbitrary: t)
  case Nil
  then show ?case by (simp add: assign_all_def)
next
  case (Cons w ws)
  have "assign_all t (w # ws) = assign_all (assign_member t (fst w) (snd w)) ws"
    by (simp add: assign_all_def)
  then show ?case
    using Cons.IH[of "assign_member t (fst w) (snd w)"] assign_member_keys[of t "fst w" "snd w"]
    by auto
qed

lemma assign_all_no_proto:
  "''__proto__'' \<notin> fst ` set ws \<Longrightarrow> map_of (target_fields t) ''__proto__'' = None \<Longrightarrow>
   map_of (target_fields (assign_all t ws)) ''__proto__'' = None"
  using assign_all_keys[of t ws] by (auto simp: map_of_eq_None_iff)

lemma assign_member_setter:
  "target_lookup t = FindsSetter \<Longrightarrow> map_of (target_fields t) ''__proto__'' = None \<Longrightarrow>
   target_fields (assign_member t ''__proto__'' v) = target_fields t"
  by (auto simp: assign_member_def split: jsval.splits)

lemma assign_member_lookup:
  "key \<noteq> ''__proto__'' \<Longrightarrow> target_lookup (assign_member t key v) = target_lookup t"
  by (simp add: assign_member_def)

lemma assign_all_one_proto:
  "length (filter (\<lambda>w. fst w = ''__proto__'') ws) \<le> 1 \<Longrightarrow>
   target_lookup t = FindsSetter \<Longrightarrow> map_of (target_fields t) ''__proto__'' = None \<Longrightarrow>
   map_of (target_fields (assign_all t ws)) ''__proto__'' = None"
proof (induction ws arbitrary: t)
  case Nil
  then show ?case by (simp add: assign_all_def)
next
  case (Cons w ws)
  have step: "assign_all t (w # ws) = assign_all (assign_member t (fst w) (snd w)) ws"
    by (simp add: assign_all_def)
  show ?case
  proof (cases "fst w = ''__proto__''")
    case True
    then have "filter (\<lambda>w. fst w = ''__proto__'') ws = []" using Cons.prems(1) by simp
    then have none: "''__proto__'' \<notin> fst ` set ws" by (auto simp: filter_empty_conv)
    have "map_of (target_fields (assign_member t (fst w) (snd w))) ''__proto__'' = None"
      using assign_member_setter[OF Cons.prems(2,3)] True Cons.prems(3) by simp
    from assign_all_no_proto[OF none this] show ?thesis unfolding step .
  next
    case False
    have count: "length (filter (\<lambda>w. fst w = ''__proto__'') ws) \<le> 1"
      using Cons.prems(1) False by simp
    have look: "target_lookup (assign_member t (fst w) (snd w)) = FindsSetter"
      using assign_member_lookup[OF False] Cons.prems(2) by simp
    have own: "map_of (target_fields (assign_member t (fst w) (snd w))) ''__proto__'' = None"
      using False Cons.prems(3) by (simp add: assign_member_def update_conv')
    from Cons.IH[OF count look own] show ?thesis unfolding step .
  qed
qed

lemma plain_as_writes:
  "foldl json_plain_step t ms = assign_all t (filter (\<lambda>m. \<not> has_password (fst m)) ms)"
  by (induction ms arbitrary: t) (auto simp: json_plain_step_def assign_all_def)

lemma entry_as_writes:
  "foldl json_entry_step t ms =
     assign_all t (map (\<lambda>m. (cleaned_key (fst m), snd m))
                     (filter (\<lambda>m. startsWith (fst m) ''entry.'' \<or> startsWith (fst m) ''entry_'' \<or>
                                   \<not> has_password (fst m)) ms))"
  by (induction ms arbitrary: t) (auto simp: json_entry_step_def assign_all_def cleaned_key_def)

lemma count_filter_le:
  "length (filter (\<lambda>w. fst w = k) (filter Q ws)) \<le> length (filter (\<lambda>w. fst w = k) ws)"
  by (induction ws) auto

lemma json_plain_reading_map:
  assumes "length (filter (\<lambda>w. fst w = ''__proto__'') ms) \<le> 1"
  shows "map_of (json_plain_reading ms) =
           map_of (rev (filter (\<lambda>(k, v). \<not> has_password k \<and> k \<noteq> ''__proto__'') ms))"
proof
  fix k
  let ?ws = "filter (\<lambda>m. \<not> has_password (fst m)) ms"
  have reading: "json_plain_reading ms = target_fields (assign_all empty_target ?ws)"
    by (simp add: json_plain_reading_def plain_as_writes)
  have rhs: "map_of (rev (filter (\<lambda>(k, v). \<not> has_password k \<and> k \<noteq> ''__proto__'') ms)) k =
             (if \<not> has_password k \<and> k \<noteq> ''__proto__'' then map_of (rev ms) k else None)"
    using map_of_rev_filter_key[of "\<lambda>k. \<not> has_password k \<and> k \<noteq> ''__proto__''" ms k]
    by (simp add: case_prod_unfold)
  show "map_of (json_plain_reading ms) k =
        map_of (rev (filter (\<lambda>(k, v). \<not> has_password k \<and> k \<noteq> ''__proto__'') ms)) k"
  proof (cases "k = ''__proto__''")
    case True
    have "length (filter (\<lambda>w. fst w = ''__proto__'') ?ws) \<le> 1"
      using count_filter_le[of "''__proto__''" "\<lambda>m. \<not> has_password (fst m)" ms] assms by simp
    from assign_all_one_proto[OF this, of empty_target]
    have "map_of (json_plain_reading ms) ''__proto__'' = None"
      unfolding reading by (simp add: empty_target_def)
    then show ?thesis using True rhs by simp
  next
    case False
    have "map_of (json_plain_reading ms) k = map_of (rev ?ws) k"
      unfolding reading using assign_all_other[OF False, of empty_target ?ws]
      by (simp add: empty_target_def)
    also have "\<dots> = (if \<not> has_password k then map_of (rev ms) k else None)"
      using map_of_rev_filter_key[of "\<lambda>k. \<not> has_password k" ms k] by simp
    finally show ?thesis using rhs False by simp
  qed
qed

lemma json_entry_reading_map:
  assumes "\<not> has_password k" and "k \<noteq> ''__proto__''"
  shows "map_of (json_entry_reading ms) k =
           map_of (rev (map (\<lambda>(key, v). (cleaned_key key, v)) ms)) k"
proof -
  let ?Q = "\<lambda>m. startsWith (fst m) ''entry.'' \<or> startsWith (fst m) ''entry_'' \<or> \<not> has_password (fst m)"
  let ?c = "\<lambda>m. (cleaned_key (fst m), snd m)"
  have same: "(\<lambda>(key, v). (cleaned_key key, v)) = ?c" by (simp add: fun_eq_iff)
  have "map_of (json_entry_reading ms) k = map_of (rev (map ?c (filter ?Q ms))) k"
    unfolding json_entry_reading_def entry_as_writes
    using assign_all_other[OF assms(2), of empty_target] by (simp add: empty_target_def)
  also have "\<dots> = map_of (rev (map ?c ms)) k"
  proof (rule map_of_rev_map_filter, intro ballI impI)
    fix m
    assume "m \<in> set ms" and "\<not> ?Q m"
    then have "cleaned_key (fst m) = fst m" and "has_password (fst m)"
      by (auto simp: cleaned_key_def)
    then show "fst (?c m) \<noteq> k" using assms(1) by auto
  qed
  finally show ?thesis unfolding same .
qed

subsection \<open>NetworkInterceptor: which reading a string body gets\<close>

lemma own_entries_read_member:
  "own_entries parsed = Some ms \<Longrightarrow> \<exists>v. read_member parsed k = Some v"
  by (cases parsed) (auto simp: own_entries_def read_member_def)

lemma own_entries_none:
  "own_entries parsed = None \<Longrightarrow> fetch_json_fields g parsed = None"
  by (cases parsed) (auto simp: own_entries_def fetch_json_fields_def read_member_def)

lemma fetch_json_plain:
  assumes "JSON_parse s = Some parsed" and "own_entries parsed = Some ms"
    and "\<not> uses_entry_branch g (BodyString s)"
  shows "fetch_body_fields g (BodyString s) = json_plain_reading ms"
proof -
  obtain d e where "read_member parsed ''entry.'' = Some d" and "read_member parsed ''entry'' = Some e"
    using own_entries_read_member[OF assms(2)] by blast
  then have "fetch_json_fields g parsed = Some (json_plain_reading ms)"
    using assms by (auto simp: fetch_json_fields_def uses_entry_branch_def)
  then show ?thesis using assms(1) by (simp add: fetch_body_fields_def fetch_body_reading_def)
qed

lemma fetch_json_entry:
  assumes "JSON_parse s = Some parsed" and "own_entries parsed = Some ms"
    and "uses_entry_branch g (BodyString s)"
  shows "fetch_body_fields g (BodyString s) = json_entry_reading ms"
proof -
  obtain d e where "read_member parsed ''entry.'' = Some d" and "read_member parsed ''entry'' = Some e"
    using own_entries_read_member[OF assms(2)] by blast
  then have "fetch_json_fields g parsed = Some (json_entry_reading ms)"
    using assms by (auto simp: fetch_json_fields_def uses_entry_branch_def)
  then show ?thesis using assms(1) by (simp add: fetch_body_fields_def fetch_body_reading_def)
qed

lemma fetch_urlencoded:
  assumes "JSON_parse s = None \<or> (JSON_parse s = Some parsed \<and> own_entries parsed = None)"
  shows "fetch_body_fields g (BodyString s) = foldl urlencoded_step [] (URLSearchParams s)"
  using assms own_entries_none[of parsed g]
  by (auto simp: fetch_body_fields_def fetch_body_reading_def)

lemma formdata_reading_map:
  assumes "formdata_reading entries = Inr formData"
  shows "map_of formData =
     map_of (rev (map (\<lambda>(k, v). (k, entry_jsval v))
                    (filter (\<lambda>(k, v). \<not> has_password k \<and> k \<noteq> ''__proto__'') entries)))"
proof -
  from assms obtain t' where "foldl formdata_step (Inr empty_formdata) entries = Inr t'"
    and "formData = filled_fields t'"
    by (auto simp: formdata_reading_def split: sum.splits)
  then show ?thesis using foldl_formdata_map[of empty_formdata entries t']
    by (simp add: empty_formdata_def)
qed

lemma formdata_reading_returns:
  assumes "\<forall>(k, v) \<in> set entries. k = ''__proto__'' \<longrightarrow> (\<exists>str. v = FormText str)"
  shows "\<exists>formData. formdata_reading entries = Inr formData"
  using foldl_formdata_returns[OF assms, of empty_formdata]
  by (auto simp: formdata_reading_def empty_formdata_def)

lemma fetch_string_returns:
  "fetch_body_reading g (BodyString s) = Inr (fetch_body_fields g (BodyString s))"
  by (simp add: fetch_body_fields_def fetch_body_reading_def)

lemma fetch_body_fields_nonempty:
  "fetch_body_fields g b \<noteq> [] \<Longrightarrow> fetch_body_reading g b = Inr (fetch_body_fields g b)"
  by (auto simp: fetch_body_fields_def split: sum.splits)

lemma fetch_formdata_map:
  assumes "fetch_body_reading g (BodyFormData entries) = Inr formData"
  shows "map_of formData =
     map_of (rev (map (\<lambda>(k, v). (k, entry_jsval v))
                    (filter (\<lambda>(k, v). \<not> has_password k \<and> k \<noteq> ''__proto__'') entries)))"
  using assms formdata_reading_map by (simp add: fetch_body_reading_def)

lemma fetch_urlencoded_map:
  assumes "JSON_parse s = None \<or> (JSON_parse s = Some parsed \<and> own_entries parsed = None)"
  shows "map_of (fetch_body_fields g (BodyString s)) =
     map_of (rev (map (\<lambda>(k, v). (replace_entry_dot k, JStr v))
                    (filter (\<lambda>(k, v). \<not> has_password k \<and> replace_entry_dot k \<noteq> ''__proto__'')
                       (URLSearchParams s))))"
  unfolding fetch_urlencoded[OF assms] by (simp add: foldl_urlencoded_map)

lemma fetch_json_plain_map:
  assumes "JSON_parse s = Some parsed" and "own_entries parsed = Some ms"
    and "\<not> uses_entry_branch g (BodyString s)"
  shows "map_of (fetch_body_fields g (BodyString s)) =
           map_of (rev (filter (\<lambda>(k, v). \<not> has_password k \<and> k \<noteq> ''__proto__'') ms))"
  unfolding fetch_json_plain[OF assms]
  by (rule json_plain_reading_map[OF own_entries_one_proto[OF assms(1,2)]])

lemma fetch_json_entry_map:
  assumes "JSON_parse s = Some parsed" and "own_entries parsed = Some ms"
    and "uses_entry_branch g (BodyString s)" and "\<not> has_password k" and "k \<noteq> ''__proto__''"
  shows "map_of (fetch_body_fields g (BodyString s)) k =
           map_of (rev (map (\<lambda>(key, v). (cleaned_key key, v)) ms)) k"
  unfolding fetch_json_entry[OF assms(1-3)] by (rule json_entry_reading_map[OF assms(4,5)])

lemma fetch_json_entry_normalised:
  assumes "JSON_parse s = Some parsed" and "own_entries parsed = Some ms"
    and "uses_entry_branch g (BodyString s)"
    and "(key, v) \<in> set ms" and "startsWith key ''entry.''" and "\<not> has_password key"
    and "drop 6 key \<noteq> ''__proto__''"
  shows "drop 6 key \<in> fst ` set (fetch_body_fields g (BodyString s))"
proof -
  have clean: "cleaned_key key = drop 6 key"
    using assms(5) by (simp add: cleaned_key_def replace_entry_def)
  have nopw: "\<not> has_password (drop 6 key)" using assms(6) has_password_drop by blast
  have "(cleaned_key key, v) \<in> set (rev (map (\<lambda>(key, v). (cleaned_key key, v)) ms))"
    using assms(4) by force
  then have "drop 6 key \<in> fst ` set (rev (map (\<lambda>(key, v). (cleaned_key key, v)) ms))"
    unfolding clean by force
  then have "map_of (rev (map (\<lambda>(key, v). (cleaned_key key, v)) ms)) (drop 6 key) \<noteq> None"
    by (simp only: map_of_eq_None_iff not_not)
  then have "map_of (fetch_body_fields g (BodyString s)) (drop 6 key) \<noteq> None"
    using fetch_json_entry_map[OF assms(1-3) nopw assms(7)] by simp
  then show ?thesis by (simp only: map_of_eq_None_iff not_not)
qed

lemma map_of_keys: "k \<in> fst ` set al \<longleftrightarrow> map_of al k \<noteq> None"
  by (simp add: map_of_eq_None_iff)

lemma fetch_password_origin:
  assumes "k \<in> fst ` set (fetch_body_fields g b)" and "has_password k"
  shows "uses_entry_branch g b \<and>
         (\<exists>s parsed ms key v. b = BodyString s \<and> JSON_parse s = Some parsed \<and>
            own_entries parsed = Some ms \<and> (key, v) \<in> set ms \<and>
            (startsWith key ''entry.'' \<or> startsWith key ''entry_'') \<and> k = cleaned_key key)"
proof (cases b)
  case (BodyFormData entries)
  have "fetch_body_fields g b \<noteq> []" using assms(1) by auto
  from fetch_body_fields_nonempty[OF this]
  have "map_of (fetch_body_fields g b) =
     map_of (rev (map (\<lambda>(k, v). (k, entry_jsval v))
                    (filter (\<lambda>(k, v). \<not> has_password k \<and> k \<noteq> ''__proto__'') entries)))"
    unfolding BodyFormData by (rule fetch_formdata_map)
  moreover have "map_of (fetch_body_fields g b) k \<noteq> None"
    using assms(1) by (simp add: map_of_keys)
  ultimately have "map_of (rev (map (\<lambda>(k, v). (k, entry_jsval v))
                    (filter (\<lambda>(k, v). \<not> has_password k \<and> k \<noteq> ''__proto__'') entries))) k \<noteq> None"
    by simp
  then have "\<not> has_password k" by (auto simp: map_of_eq_None_iff)
  then show ?thesis using assms(2) by simp
next
  case BodyOther
  then show ?thesis using assms(1) by (simp add: fetch_body_fields_def fetch_body_reading_def)
next
  case (BodyString s)
  show ?thesis
  proof (cases "JSON_parse s")
    case None
    have "map_of (fetch_body_fields g b) k \<noteq> None" using assms(1) by (simp add: map_of_keys)
    then have "map_of (rev (map (\<lambda>(k, v). (replace_entry_dot k, JStr v))
                    (filter (\<lambda>(k, v). \<not> has_password k \<and> replace_entry_dot k \<noteq> ''__proto__'')
                       (URLSearchParams s)))) k \<noteq> None"
      unfolding BodyString fetch_urlencoded_map[where parsed = JNull, OF disjI1[OF None]] .
    then have "\<not> has_password k" using has_password_replace_entry_dot by (auto simp: map_of_eq_None_iff)
    then show ?thesis using assms(2) by simp
  next
    case (Some parsed)
    show ?thesis
    proof (cases "own_entries parsed")
      case None
      have "map_of (fetch_body_fields g b) k \<noteq> None" using assms(1) by (simp add: map_of_keys)
      then have "map_of (rev (map (\<lambda>(k, v). (replace_entry_dot k, JStr v))
                    (filter (\<lambda>(k, v). \<not> has_password k \<and> replace_entry_dot k \<noteq> ''__proto__'')
                       (URLSearchParams s)))) k \<noteq> None"
        unfolding BodyString fetch_urlencoded_map[OF disjI2[OF conjI[OF Some None]]] .
      then have "\<not> has_password k" using has_password_replace_entry_dot by (auto simp: map_of_eq_None_iff)
      then show ?thesis using assms(2) by simp
    next
      case ms: (Some ms)
      show ?thesis
      proof (cases "uses_entry_branch g (BodyString s)")
        case False
        have "map_of (fetch_body_fields g b) k \<noteq> None" using assms(1) by (simp add: map_of_keys)
        then have "map_of (rev (filter (\<lambda>(k, v). \<not> has_password k \<and> k \<noteq> ''__proto__'') ms)) k \<noteq> None"
          unfolding BodyString fetch_json_plain_map[OF Some ms False] .
        then have "\<not> has_password k" by (auto simp: map_of_eq_None_iff)
        then show ?thesis using assms(2) by simp
      next
        case True
        let ?ws = "map (\<lambda>m. (cleaned_key (fst m), snd m))
                     (filter (\<lambda>m. startsWith (fst m) ''entry.'' \<or> startsWith (fst m) ''entry_'' \<or>
                                   \<not> has_password (fst m)) ms)"
        have "fetch_body_fields g b = target_fields (assign_all empty_target ?ws)"
          unfolding BodyString fetch_json_entry[OF Some ms True]
          by (simp add: json_entry_reading_def entry_as_writes)
        then have "k \<in> fst ` set ?ws"
          using assms(1) assign_all_keys[of empty_target ?ws] by (auto simp: empty_target_def)
        then obtain m where m: "m \<in> set ms" "k = cleaned_key (fst m)"
          and kept: "startsWith (fst m) ''entry.'' \<or> startsWith (fst m) ''entry_'' \<or>
                     \<not> has_password (fst m)"
          by auto
        have prefixed: "startsWith (fst m) ''entry.'' \<or> startsWith (fst m) ''entry_''"
        proof (rule ccontr)
          assume no: "\<not> (startsWith (fst m) ''entry.'' \<or> startsWith (fst m) ''entry_'')"
          then have "cleaned_key (fst m) = fst m" by (simp add: cleaned_key_def)
          moreover have "\<not> has_password (fst m)" using kept no by blast
          ultimately show False using m(2) assms(2) by simp
        qed
        have "(fst m, snd m) \<in> set ms" using m(1) by simp
        then show ?thesis using True BodyString Some ms prefixed m(2) by blast
      qed
    qed
  qed
qed

subsection \<open>GenericExtractor: stored values\<close>

lemma update_set_subset: "set (AList.update k v al) \<subseteq> insert (k, v) (set al)"
  by (induction al) auto

lemma update_preserves:
  assumes "\<forall>(k, w) \<in> set al. P w" and "P v"
  shows "\<forall>(k, w) \<in> set (AList.update name v al). P w"
  using assms update_set_subset[of name v al] by blast

lemma store_value_stored:
  assumes inv: "\<forall>(k, w) \<in> set (own_fields formData). stored_value w"
  shows "\<forall>(k, w) \<in> set (own_fields (store_value formData name v)). stored_value w"
proof (cases v)
  case None
  then show ?thesis using inv by (simp add: store_value_def)
next
  case (Some s)
  show ?thesis
  proof (cases "s = []")
    case True
    then show ?thesis using inv Some by (simp add: store_value_def)
  next
    case False
    let ?old = "formData_get formData name"
    show ?thesis
    proof (cases "truthy ?old")
      case no: False
      then have "store_value formData name v = formData_set_string formData name s"
        using Some False by (simp add: store_value_def)
      moreover have "stored_value (JStr s)" using False by simp
      ultimately show ?thesis
        using update_preserves[OF inv, of "JStr s" name] inv
        by (auto simp: formData_set_string_def)
    next
      case yes: True
      show ?thesis
      proof (cases "\<exists>xs. ?old = JArr xs")
        case True
        then obtain xs where xs: "?old = JArr xs" by blast
        then have eq: "store_value formData name v = formData_push formData name xs (JStr s)"
          using Some False yes by (simp add: store_value_def)
        show ?thesis
        proof (cases "map_of (own_fields formData) name")
          case None
          then have "own_fields (formData_push formData name xs (JStr s)) = own_fields formData"
            by (auto simp: formData_push_def split: option.splits)
          then show ?thesis using inv eq by simp
        next
          case (Some w)
          then have "w = JArr xs" using xs by (simp add: formData_get_def)
          then have "(name, JArr xs) \<in> set (own_fields formData)"
            using Some map_of_SomeD by fastforce
          then have "stored_value (JArr xs)" using inv by auto
          then have "stored_value (JArr (xs @ [JStr s]))" using False by simp
          moreover have "own_fields (formData_push formData name xs (JStr s)) =
                         AList.update name (JArr (xs @ [JStr s])) (own_fields formData)"
            using Some by (simp add: formData_push_def)
          ultimately show ?thesis
            using update_preserves[OF inv, of "JArr (xs @ [JStr s])" name] eq by simp
        qed
      next
        case notarr: False
        then have eq: "store_value formData name v = formData_set_array formData name [?old, JStr s]"
          using Some False yes by (auto simp: store_value_def split: jsval.splits)
        have "stored_value (JArr [?old, JStr s])" using yes False by simp
        then show ?thesis
          using update_preserves[OF inv, of "JArr [?old, JStr s]" name] inv eq
          by (auto simp: formData_set_array_def)
      qed
    qed
  qed
qed

lemma extract_step_stored:
  assumes inv: "\<forall>(k, w) \<in> set (own_fields formData). stored_value w"
  shows "\<forall>(k, w) \<in> set (own_fields (extract_step formData e)). stored_value w"
  using inv store_value_stored[OF inv]
  by (auto simp: extract_step_def split: option.splits)

lemma foldl_extract_stored:
  "\<forall>(k, w) \<in> set (own_fields acc). stored_value w \<Longrightarrow>
   \<forall>(k, w) \<in> set (own_fields (foldl extract_step acc form)). stored_value w"
proof (induction form arbitrary: acc)
  case Nil
  then show ?case by simp
next
  case (Cons e form)
  have "\<forall>(k, w) \<in> set (own_fields (extract_step acc e)). stored_value w"
    by (rule extract_step_stored[OF Cons.prems])
  from Cons.IH[OF this] show ?case by simp
qed

lemma extractFormData_stored: "(k, w) \<in> set (extractFormData form) \<Longrightarrow> stored_value w"
  using foldl_extract_stored[of empty_dictionary form]
  by (auto simp: extractFormData_def empty_dictionary_def)

lemma stored_value_defined:
  "stored_value w \<Longrightarrow>
   w \<noteq> JStr [] \<and> w \<noteq> JUndefined \<and> w \<noteq> JNull \<and>
   (\<forall>xs. w = JArr xs \<longrightarrow> JStr [] \<notin> set xs \<and> JUndefined \<notin> set xs \<and> JNull \<notin> set xs)"
  by (cases w) (auto simp: list_all_iff)

lemma assign_entry_stored:
  assumes "\<forall>(k, w) \<in> set formData. stored_value w" and "stored_value v"
  shows "\<forall>(k, w) \<in> set (assign_entry formData name v). stored_value w"
  using assms update_preserves[OF assms, of name] by (simp add: assign_entry_def)

lemma google_last_resort_stored:
  "\<forall>(k, w) \<in> set acc. stored_value w \<Longrightarrow>
   \<forall>(k, w) \<in> set (foldl google_last_resort_step acc inputs). stored_value w"
proof (induction inputs arbitrary: acc)
  case Nil
  then show ?case by simp
next
  case (Cons input inputs)
  have "\<forall>(k, w) \<in> set (google_last_resort_step acc input). stored_value w"
  proof (cases "str_or (in_value input) (in_textContent input) \<noteq> [] \<and>
                trim (str_or (in_value input) (in_textContent input)) \<noteq> []")
    case True
    then have "stored_value (JStr (str_or (in_value input) (in_textContent input)))" by simp
    from assign_entry_stored[OF Cons.prems this] show ?thesis
      using True by (simp add: google_last_resort_step_def Let_def)
  next
    case False
    then show ?thesis using Cons.prems by (auto simp: google_last_resort_step_def Let_def)
  qed
  from Cons.IH[OF this] show ?case by simp
qed

lemma clickup_last_resort_stored:
  "\<forall>(k, w) \<in> set acc. stored_value w \<Longrightarrow>
   \<forall>(k, w) \<in> set (foldl clickup_last_resort_step acc inputs). stored_value w"
proof (induction inputs arbitrary: acc)
  case Nil
  then show ?case by simp
next
  case (Cons input inputs)
  have "\<forall>(k, w) \<in> set (clickup_last_resort_step acc input). stored_value w"
  proof (cases "str_or (in_value input) (in_textContent input) \<noteq> [] \<and>
                trim (str_or (in_value input) (in_textContent input)) \<noteq> []")
    case True
    then have "stored_value (JStr (str_or (in_value input) (in_textContent input)))" by simp
    from assign_entry_stored[OF Cons.prems this] show ?thesis
      using True by (simp add: clickup_last_resort_step_def Let_def)
  next
    case False
    then show ?thesis using Cons.prems by (auto simp: clickup_last_resort_step_def Let_def)
  qed
  from Cons.IH[OF this] show ?case by simp
qed

subsection \<open>The dispatch sites\<close>

lemma native_sent_nonempty:
  "s \<in> set (captureFormSubmission pg frm) \<Longrightarrow> sub_fields s \<noteq> []"
  by (auto simp: captureFormSubmission_def Let_def Object_keys_empty split: if_splits)

lemma native_ignored:
  "shouldIgnore (href pg) (str_or (form_action frm) (href pg)) \<Longrightarrow>
   captureFormSubmission pg frm = []"
  by (simp add: captureFormSubmission_def Let_def)

lemma google_attempt_sent_nonempty:
  "s \<in> set (cap_sent (google_attemptCapture doc attempts)) \<Longrightarrow> sub_fields s \<noteq> []"
proof (induction doc attempts rule: google_attemptCapture.induct)
  case (1 doc attempts)
  show ?case
  proof (cases "length (Object_keys (snap_google (doc (attempts + 1)))) = 0 \<and>
                attempts + 1 < maxAttempts")
    case True
    with "1.prems" have "s \<in> set (cap_sent (google_attemptCapture doc (attempts + 1)))"
      by (subst (asm) google_attemptCapture.simps) (simp add: Let_def)
    with True "1.IH" show ?thesis by simp
  next
    case False
    with "1.prems" show ?thesis
      by (subst (asm) google_attemptCapture.simps)
        (auto simp: Let_def Object_keys_empty split: if_splits)
  qed
qed

lemma clickup_attempt_sent_nonempty:
  "s \<in> set (cap_sent (clickup_attemptCapture doc attempts)) \<Longrightarrow> sub_fields s \<noteq> []"
proof (induction doc attempts rule: clickup_attemptCapture.induct)
  case (1 doc attempts)
  show ?case
  proof (cases "length (Object_keys (snap_clickup (doc (attempts + 1)))) = 0 \<and>
                attempts + 1 < maxAttempts")
    case True
    with "1.prems" have "s \<in> set (cap_sent (clickup_attemptCapture doc (attempts + 1)))"
      by (subst (asm) clickup_attemptCapture.simps) (simp add: Let_def)
    with True "1.IH" show ?thesis by simp
  next
    case False
    with "1.prems" show ?thesis
      by (subst (asm) clickup_attemptCapture.simps)
        (auto simp: Let_def Object_keys_empty split: if_splits)
  qed
qed

lemma google_sent_nonempty:
  "s \<in> set (cap_sent (captureGoogleFormSubmission doc)) \<Longrightarrow> sub_fields s \<noteq> []"
  using google_attempt_sent_nonempty[of s doc 0]
  by (auto simp: captureGoogleFormSubmission_def split: if_splits)

lemma clickup_sent_nonempty:
  "s \<in> set (cap_sent (captureClickUpFormSubmission doc)) \<Longrightarrow> sub_fields s \<noteq> []"
  using clickup_attempt_sent_nonempty[of s doc 0]
  by (auto simp: captureClickUpFormSubmission_def split: if_splits)

lemma microsoft_sent_nonempty:
  "s \<in> set (cap_sent (captureMicrosoftFormSubmission doc)) \<Longrightarrow> sub_fields s \<noteq> []"
  by (auto simp: captureMicrosoftFormSubmission_def Let_def Object_keys_empty split: if_splits)

lemma fetch_observe_sent:
  "fetch_observe pg url b = Inr (timers, sent) \<Longrightarrow> s \<in> set sent \<Longrightarrow> sub_fields s \<noteq> []"
  by (auto simp: fetch_observe_def Let_def Object_keys_empty split: sum.splits if_splits)

lemma fetch_observe_timers:
  "fetch_observe pg url b = Inr (timers, sent) \<Longrightarrow> (delay, t) \<in> set timers \<Longrightarrow>
   t = CaptureGoogle \<or> t = CaptureMicrosoft \<or> t = CaptureClickUp"
  by (auto simp: fetch_observe_def Let_def split: sum.splits if_splits)

lemma wrapped_fetch_effects:
  "out_sent (wrapped_fetch originalFetch pg args) = [] \<and>
   out_timers (wrapped_fetch originalFetch pg args) = [] \<or>
   (\<exists>b. fetch_observe pg (fst args) b =
      Inr (out_timers (wrapped_fetch originalFetch pg args),
           out_sent (wrapped_fetch originalFetch pg args)))"
  by (auto simp: wrapped_fetch_def Let_def split: option.splits sum.splits if_splits)

lemma wrapped_fetch_sent_nonempty:
  "s \<in> set (out_sent (wrapped_fetch originalFetch pg args)) \<Longrightarrow> sub_fields s \<noteq> []"
  using wrapped_fetch_effects[of originalFetch pg args] fetch_observe_sent by fastforce

lemma wrapped_fetch_timers:
  "(delay, t) \<in> set (out_timers (wrapped_fetch originalFetch pg args)) \<Longrightarrow>
   t = CaptureGoogle \<or> t = CaptureMicrosoft \<or> t = CaptureClickUp"
  using wrapped_fetch_effects[of originalFetch pg args] fetch_observe_timers by fastforce

lemma wrapped_send_sent: "out_sent (wrapped_send originalSend this data) = []"
  by (auto simp: wrapped_send_def Let_def split: option.splits sum.splits if_splits)

lemma wrapped_send_timers:
  "(delay, t) \<in> set (out_timers (wrapped_send originalSend this data)) \<Longrightarrow>
   t = CaptureMicrosoft \<or> t = CaptureClickUp \<or>
   (\<exists>urlStr formData ms cu. t = SendNetworkSubmission urlStr formData ms cu \<and> formData \<noteq> [])"
  by (auto simp: wrapped_send_def Let_def Object_keys_empty
      split: option.splits sum.splits if_splits)

lemma run_task_nonempty:
  assumes "t = CaptureGoogle \<or> t = CaptureMicrosoft \<or> t = CaptureClickUp \<or>
           (\<exists>urlStr formData ms cu. t = SendNetworkSubmission urlStr formData ms cu \<and> formData \<noteq> [])"
    and "s \<in> set (run_task doc t)"
  shows "sub_fields s \<noteq> []"
  using assms google_sent_nonempty[of s doc] microsoft_sent_nonempty[of s doc]
    clickup_sent_nonempty[of s doc]
  by (auto simp: run_task_def network_submission_def)

subsection \<open>NetworkInterceptor: calls whose method is a string\<close>

lemma wrapped_fetch_string_method:
  assumes "\<And>opts. snd args = Some opts \<Longrightarrow> truthy (opt_method opts) \<Longrightarrow> \<exists>m. opt_method opts = JStr m"
  shows "out_calls (wrapped_fetch originalFetch pg args) = [args] \<and>
         out_result (wrapped_fetch originalFetch pg args) = Inr (originalFetch args)"
proof (cases "snd args")
  case None
  then show ?thesis by (simp add: wrapped_fetch_def)
next
  case (Some opts)
  show ?thesis
  proof (cases "truthy (opt_method opts)")
    case False
    then show ?thesis using Some by (simp add: wrapped_fetch_def)
  next
    case True
    then obtain m where "opt_method opts = JStr m" using assms[OF Some] by blast
    then show ?thesis using Some
      by (auto simp: wrapped_fetch_def method_toUpperCase_def Let_def
          split: option.splits sum.splits)
  qed
qed

lemma wrapped_send_string_method:
  assumes "truthy (formtrackMethod this) \<Longrightarrow> \<exists>m. formtrackMethod this = JStr m"
  shows "out_calls (wrapped_send originalSend this data) = [data] \<and>
         out_result (wrapped_send originalSend this data) = Inr (originalSend data)"
proof (cases "truthy (formtrackMethod this)")
  case False
  then show ?thesis by (simp add: wrapped_send_def)
next
  case True
  then obtain m where "formtrackMethod this = JStr m" using assms by blast
  then show ?thesis
    by (auto simp: wrapped_send_def method_toUpperCase_def Let_def
        split: option.splits sum.splits)
qed

subsection \<open>NetworkInterceptor: the source of a submission built by a timer of \<^verbatim>\<open>send\<close>\<close>

lemma wrapped_send_task_flags:
  "(delay, SendNetworkSubmission urlStr formData ms cu)
     \<in> set (out_timers (wrapped_send originalSend this data)) \<Longrightarrow>
   ms = isMicrosoftFormsEndpoint urlStr \<and> cu = isClickUpFormsEndpoint urlStr \<and>
   (isGoogleFormsEndpoint urlStr \<or> ms \<or> cu)"
  by (auto simp: wrapped_send_def Let_def split: option.splits sum.splits if_splits)

lemma run_send_task_source:
  "map sub_source (run_task doc (SendNetworkSubmission urlStr formData ms cu)) =
     [Some (if ms then ''microsoft-forms'' else if cu then ''clickup-forms'' else ''google-forms'')]"
  by (simp add: run_task_def network_submission_def)

lemma xhr_source:
  "\<forall>(delay, t) \<in> set (out_timers (wrapped_send originalSend this data)).
      \<forall>urlStr formData ms cu. t = SendNetworkSubmission urlStr formData ms cu \<longrightarrow>
        (isGoogleFormsEndpoint urlStr \<or> isMicrosoftFormsEndpoint urlStr \<or>
         isClickUpFormsEndpoint urlStr) \<and>
        map sub_source (run_task doc t) =
          [Some (if isMicrosoftFormsEndpoint urlStr then ''microsoft-forms''
                 else if isClickUpFormsEndpoint urlStr then ''clickup-forms''
                 else ''google-forms'')]"
proof (intro ballI, clarify)
  fix delay urlStr formData ms cu
  assume "(delay, SendNetworkSubmission urlStr formData ms cu)
            \<in> set (out_timers (wrapped_send originalSend this data))"
  from wrapped_send_task_flags[OF this]
  show "(isGoogleFormsEndpoint urlStr \<or> isMicrosoftFormsEndpoint urlStr \<or>
         isClickUpFormsEndpoint urlStr) \<and>
        map sub_source (run_task doc (SendNetworkSubmission urlStr formData ms cu)) =
          [Some (if isMicrosoftFormsEndpoint urlStr then ''microsoft-forms''
                 else if isClickUpFormsEndpoint urlStr then ''clickup-forms''
                 else ''google-forms'')]"
    by (auto simp: run_send_task_source)
qed

subsection \<open>NetworkInterceptor: the claims about the wrapped primitives\<close>

text \<open>
  C2: the ignore policy is consulted by the native path only. On a page outside the ignore
  list, a \<^verbatim>\<open>fetch\<close> with method POST to \<open>https://example.com/login\<close> and body \<open>user=bob\<close>
  is vetoed by \<^const>\<open>shouldIgnore\<close> as an action URL, and a submission with the field
  \<open>user\<close> is sent for it all the same.
\<close>

theorem fetch_skips_ignore_policy:
  "shouldIgnore (href contact_page) ''https://example.com/login'' \<and>
   map sub_fields
     (out_sent (wrapped_fetch host_fetch contact_page
        (post_request ''https://example.com/login'' (BodyString ''user=bob'')))) =
     [[(''user'', JStr ''bob'')]]"
  by code_simp

text \<open>
  C3: a call whose \<^verbatim>\<open>method\<close> is the number 1 ends in a \<^verbatim>\<open>TypeError\<close> thrown by the
  wrapper, and the original primitive is never called; the same holds for \<^verbatim>\<open>send\<close> on a
  request opened with such a method.
\<close>

theorem wrapper_throws_on_numeric_method:
  "wrapped_fetch host_fetch contact_page
     (UrlString ''https://example.com/api/contact'',
      Some \<lparr> opt_method = JNum ''1'', opt_body = Some (BodyString ''name=Ann'') \<rparr>) =
     \<lparr> out_timers = [], out_sent = [], out_calls = [], out_result = Inl TypeError \<rparr>
   \<and> wrapped_send host_send
     \<lparr> formtrackUrl = UrlString ''https://example.com/api/contact'', formtrackMethod = JNum ''1'' \<rparr>
     (Some (BodyString ''name=Ann'')) =
     \<lparr> out_timers = [], out_sent = [], out_calls = [], out_result = Inl TypeError \<rparr>"
  by code_simp

lemma scenario_C:
  assumes "str_includes urlStr ''/formResponse''"
  shows "wrapped_fetch originalFetch pg (post_request urlStr (BodyString ''entry.111=Foo'')) =
     \<lparr> out_timers =
         [(200, CaptureGoogle), (800, CaptureGoogle), (1500, CaptureGoogle)] @
         (if isMicrosoftFormsEndpoint urlStr then [(300, CaptureMicrosoft)] else []) @
         (if isClickUpFormsEndpoint urlStr
          then [(200, CaptureClickUp), (800, CaptureClickUp), (1500, CaptureClickUp)]
          else []),
       out_sent =
         [\<lparr> sub_url = urlStr, sub_action = urlStr, sub_timestamp = now pg,
            sub_fields = [(''111'', JStr ''Foo'')],
            sub_title = str_or (title pg) ''Untitled Page'',
            sub_source = Some ''google-forms'' \<rparr>],
       out_calls = [post_request urlStr (BodyString ''entry.111=Foo'')],
       out_result = Inr (originalFetch (post_request urlStr (BodyString ''entry.111=Foo''))) \<rparr>"
proof -
  have google: "isGoogleFormsEndpoint urlStr" using assms by (simp add: isGoogleFormsEndpoint_def)
  have parsed: "fetch_body_reading True (BodyString ''entry.111=Foo'') =
      Inr [(''111'', JStr ''Foo'')]"
    by code_simp
  have post: "truthy (JStr ''POST'')" "method_toUpperCase (JStr ''POST'') = Inr ''POST''"
    by code_simp+
  have sent: "body_truthy (BodyString ''entry.111=Foo'')" by code_simp
  have observe: "fetch_observe pg (UrlString urlStr) (BodyString ''entry.111=Foo'') =
      Inr ([(200, CaptureGoogle), (800, CaptureGoogle), (1500, CaptureGoogle)] @
           (if isMicrosoftFormsEndpoint urlStr then [(300, CaptureMicrosoft)] else []) @
           (if isClickUpFormsEndpoint urlStr
            then [(200, CaptureClickUp), (800, CaptureClickUp), (1500, CaptureClickUp)]
            else []),
           [\<lparr> sub_url = urlStr, sub_action = urlStr, sub_timestamp = now pg,
              sub_fields = [(''111'', JStr ''Foo'')],
              sub_title = str_or (title pg) ''Untitled Page'',
              sub_source = Some ''google-forms'' \<rparr>])"
    using google
    by (simp add: fetch_observe_def url_toString_def parsed Let_def Object_keys_def
        fetch_source_def)
  show ?thesis
    by (simp add: wrapped_fetch_def post_request_def post sent observe Let_def)
qed

text \<open>
  C4 as stated fails: a \<^verbatim>\<open>FormData\<close> body is copied key by key, so its \<open>entry.111\<close> entry
  keeps its prefix even on a Google Forms endpoint.
\<close>

theorem fetch_body_counterexample:
  "map sub_fields
     (out_sent (wrapped_fetch host_fetch google_page
        (post_request ''https://docs.google.com/forms/d/e/abc/formResponse''
           (BodyFormData [(''entry.111'', FormText ''Foo'')])))) =
     [[(''entry.111'', JStr ''Foo'')]]"
  by code_simp

text \<open>
  C4, amended. The mapping the wrapped \<^verbatim>\<open>fetch\<close> reads from a body, key by key and value by
  value. A later assignment to a key replaces an earlier one. An assignment to \<^verbatim>\<open>__proto__\<close>
  leaves no key in the reading of a \<^verbatim>\<open>FormData\<close> body, of URL-encoded parameters and of JSON
  outside the guarded branch; inside that branch the key \<^verbatim>\<open>__proto__\<close> is left out of the
  statement.

  \<^item> a \<^verbatim>\<open>FormData\<close> body gives its entries without \<open>password\<close> in the key, under their keys
    unchanged, with their values; its reading returns whenever no \<^verbatim>\<open>File\<close> is sent under the
    key \<^verbatim>\<open>__proto__\<close>, and the reading of a string body always returns;
  \<^item> a string body is read as JSON when \<^verbatim>\<open>JSON.parse\<close> accepts it and the result is not
    \<^verbatim>\<open>null\<close>, so that it has members to enumerate (\<open>own_entries\<close>). Outside the branch guarded
    by a truthy \<open>entry.\<close> or \<open>entry\<close> member of a Google Forms call, it gives the members
    without \<open>password\<close> in the key, under their keys unchanged, with their values. Inside
    that branch, every such key without \<open>password\<close> holds the value of the last member whose
    name, less a prefix \<open>entry.\<close> or \<open>entry\<close> of a name that starts with \<open>entry.\<close> or
    \<open>entry_\<close>, is that key; so a member \<open>entry.<id>\<close> without \<open>password\<close> is stored under
    \<open><id>\<close>;
  \<^item> a string body that \<^verbatim>\<open>JSON.parse\<close> rejects, or parses to \<^verbatim>\<open>null\<close>, is read as URL-encoded
    parameters and gives the parameters without \<open>password\<close> in the key, those named
    \<open>entry.<id>\<close> under \<open><id>\<close>, with their values as strings;
  \<^item> any other body gives nothing;
  \<^item> no key of the result contains \<open>password\<close>, unless it is what the guarded branch makes
    of a member whose name starts with \<open>entry.\<close> or \<open>entry_\<close>; of those members with
    \<open>password\<close> in the name nothing is said here;
  \<^item> a POST to any URL that contains \<open>/formResponse\<close> with the body \<open>entry.111=Foo\<close> sets
    the capture timers, sends exactly one submission with the fields \<open>{111: Foo}\<close> and the
    source \<open>google-forms\<close>, and returns what the original \<^verbatim>\<open>fetch\<close> returns.
\<close>

theorem fetch_body_reading:
  "(fetch_body_reading g (BodyFormData entries) = Inr formData \<longrightarrow>
      map_of formData =
        map_of (rev (map (\<lambda>(k, v). (k, entry_jsval v))
                       (filter (\<lambda>(k, v). \<not> has_password k \<and> k \<noteq> ''__proto__'') entries))))
   \<and> ((\<forall>(k, v) \<in> set entries. k = ''__proto__'' \<longrightarrow> (\<exists>str. v = FormText str)) \<longrightarrow>
        (\<exists>formData. fetch_body_reading g (BodyFormData entries) = Inr formData))
   \<and> fetch_body_reading g (BodyString s) = Inr (fetch_body_fields g (BodyString s))
   \<and> (JSON_parse s = Some parsed \<and> own_entries parsed = Some members \<and>
       \<not> uses_entry_branch g (BodyString s) \<longrightarrow>
        map_of (fetch_body_fields g (BodyString s)) =
          map_of (rev (filter (\<lambda>(k, v). \<not> has_password k \<and> k \<noteq> ''__proto__'') members)))
   \<and> (JSON_parse s = Some parsed \<and> own_entries parsed = Some members \<and>
       uses_entry_branch g (BodyString s) \<longrightarrow>
        (\<forall>k. \<not> has_password k \<and> k \<noteq> ''__proto__'' \<longrightarrow>
           map_of (fetch_body_fields g (BodyString s)) k =
             map_of (rev (map (\<lambda>(key, v). (cleaned_key key, v)) members)) k)
        \<and> (\<forall>(key, v) \<in> set members.
             startsWith key ''entry.'' \<and> \<not> has_password key \<and> drop 6 key \<noteq> ''__proto__'' \<longrightarrow>
             drop 6 key \<in> fst ` set (fetch_body_fields g (BodyString s)))
        \<and> (\<forall>k \<in> fst ` set (fetch_body_fields g (BodyString s)).
             (\<forall>(key, v) \<in> set members.
                startsWith key ''entry.'' \<or> startsWith key ''entry_'' \<longrightarrow> cleaned_key key \<noteq> k) \<longrightarrow>
             \<not> has_password k))
   \<and> (JSON_parse s = None \<or> (JSON_parse s = Some parsed \<and> own_entries parsed = None) \<longrightarrow>
        map_of (fetch_body_fields g (BodyString s)) =
          map_of (rev (map (\<lambda>(k, v). (replace_entry_dot k, JStr v))
                         (filter (\<lambda>(k, v). \<not> has_password k \<and> replace_entry_dot k \<noteq> ''__proto__'')
                            (URLSearchParams s)))))
   \<and> fetch_body_reading g BodyOther = Inr []
   \<and> (\<not> uses_entry_branch g b \<longrightarrow>
        (\<forall>k \<in> fst ` set (fetch_body_fields g b). \<not> has_password k))
   \<and> (str_includes urlStr ''/formResponse'' \<longrightarrow>
        wrapped_fetch originalFetch pg (post_request urlStr (BodyString ''entry.111=Foo'')) =
          \<lparr> out_timers =
              [(200, CaptureGoogle), (800, CaptureGoogle), (1500, CaptureGoogle)] @
              (if isMicrosoftFormsEndpoint urlStr then [(300, CaptureMicrosoft)] else []) @
              (if isClickUpFormsEndpoint urlStr
               then [(200, CaptureClickUp), (800, CaptureClickUp), (1500, CaptureClickUp)]
               else []),
            out_sent =
              [\<lparr> sub_url = urlStr, sub_action = urlStr, sub_timestamp = now pg,
                 sub_fields = [(''111'', JStr ''Foo'')],
                 sub_title = str_or (title pg) ''Untitled Page'',
                 sub_source = Some ''google-forms'' \<rparr>],
            out_calls = [post_request urlStr (BodyString ''entry.111=Foo'')],
            out_result =
              Inr (originalFetch (post_request urlStr (BodyString ''entry.111=Foo''))) \<rparr>)"
proof (intro conjI impI allI ballI)
  assume "fetch_body_reading g (BodyFormData entries) = Inr formData"
  then show "map_of formData =
        map_of (rev (map (\<lambda>(k, v). (k, entry_jsval v))
                       (filter (\<lambda>(k, v). \<not> has_password k \<and> k \<noteq> ''__proto__'') entries)))"
    by (rule fetch_formdata_map)
next
  assume "\<forall>(k, v) \<in> set entries. k = ''__proto__'' \<longrightarrow> (\<exists>str. v = FormText str)"
  then show "\<exists>formData. fetch_body_reading g (BodyFormData entries) = Inr formData"
    using formdata_reading_returns by (simp add: fetch_body_reading_def)
next
  show "fetch_body_reading g (BodyString s) = Inr (fetch_body_fields g (BodyString s))"
    by (rule fetch_string_returns)
next
  assume "JSON_parse s = Some parsed \<and> own_entries parsed = Some members \<and>
       \<not> uses_entry_branch g (BodyString s)"
  then show "map_of (fetch_body_fields g (BodyString s)) =
          map_of (rev (filter (\<lambda>(k, v). \<not> has_password k \<and> k \<noteq> ''__proto__'') members))"
    using fetch_json_plain_map by blast
next
  fix k
  assume "JSON_parse s = Some parsed \<and> own_entries parsed = Some members \<and>
       uses_entry_branch g (BodyString s)"
    and "\<not> has_password k \<and> k \<noteq> ''__proto__''"
  then show "map_of (fetch_body_fields g (BodyString s)) k =
             map_of (rev (map (\<lambda>(key, v). (cleaned_key key, v)) members)) k"
    using fetch_json_entry_map by blast
next
  fix m
  assume a: "JSON_parse s = Some parsed \<and> own_entries parsed = Some members \<and>
       uses_entry_branch g (BodyString s)"
    and m: "m \<in> set members"
  show "case m of (key, v) \<Rightarrow>
          startsWith key ''entry.'' \<and> \<not> has_password key \<and> drop 6 key \<noteq> ''__proto__'' \<longrightarrow>
          drop 6 key \<in> fst ` set (fetch_body_fields g (BodyString s))"
  proof (cases m)
    case (Pair key v)
    then show ?thesis using a m fetch_json_entry_normalised[of s parsed members g key v] by auto
  qed
next
  fix k
  assume a: "JSON_parse s = Some parsed \<and> own_entries parsed = Some members \<and>
       uses_entry_branch g (BodyString s)"
    and k: "k \<in> fst ` set (fetch_body_fields g (BodyString s))"
    and none: "\<forall>(key, v) \<in> set members.
                startsWith key ''entry.'' \<or> startsWith key ''entry_'' \<longrightarrow> cleaned_key key \<noteq> k"
  show "\<not> has_password k"
  proof
    assume "has_password k"
    from fetch_password_origin[OF k this]
    obtain parsed' ms key v where "JSON_parse s = Some parsed'" "own_entries parsed' = Some ms"
      "(key, v) \<in> set ms" "startsWith key ''entry.'' \<or> startsWith key ''entry_''"
      "k = cleaned_key key" by auto
    moreover have "parsed' = parsed" "ms = members" using a calculation(1,2) by auto
    ultimately show False using none by auto
  qed
next
  assume "JSON_parse s = None \<or> (JSON_parse s = Some parsed \<and> own_entries parsed = None)"
  then show "map_of (fetch_body_fields g (BodyString s)) =
          map_of (rev (map (\<lambda>(k, v). (replace_entry_dot k, JStr v))
                         (filter (\<lambda>(k, v). \<not> has_password k \<and> replace_entry_dot k \<noteq> ''__proto__'')
                            (URLSearchParams s))))"
    by (rule fetch_urlencoded_map)
next
  show "fetch_body_reading g BodyOther = Inr []" by (simp add: fetch_body_reading_def)
next
  fix k
  assume "\<not> uses_entry_branch g b" and "k \<in> fst ` set (fetch_body_fields g b)"
  then show "\<not> has_password k" using fetch_password_origin by blast
next
  assume "str_includes urlStr ''/formResponse''"
  then show "wrapped_fetch originalFetch pg (post_request urlStr (BodyString ''entry.111=Foo'')) =
          \<lparr> out_timers =
              [(200, CaptureGoogle), (800, CaptureGoogle), (1500, CaptureGoogle)] @
              (if isMicrosoftFormsEndpoint urlStr then [(300, CaptureMicrosoft)] else []) @
              (if isClickUpFormsEndpoint urlStr
               then [(200, CaptureClickUp), (800, CaptureClickUp), (1500, CaptureClickUp)]
               else []),
            out_sent =
              [\<lparr> sub_url = urlStr, sub_action = urlStr, sub_timestamp = now pg,
                 sub_fields = [(''111'', JStr ''Foo'')],
                 sub_title = str_or (title pg) ''Untitled Page'',
                 sub_source = Some ''google-forms'' \<rparr>],
            out_calls = [post_request urlStr (BodyString ''entry.111=Foo'')],
            out_result =
              Inr (originalFetch (post_request urlStr (BodyString ''entry.111=Foo''))) \<rparr>"
    by (rule scenario_C)
qed

theorem fetch_body_reading_witness:
  "map_of (fetch_body_fields True
       (BodyFormData [(''entry.111'', FormText ''Foo''), (''Password'', FormText ''x''),
                      (''__proto__'', FormText ''y'')])) =
     map_of [(''entry.111'', JStr ''Foo'')]
   \<and> map_of (fetch_body_fields False (BodyString ''{\"name\": \"Ann\", \"Password\": \"x\"}'')) =
       map_of [(''name'', JStr ''Ann'')]
   \<and> map_of (fetch_body_fields True
         (BodyString ''{\"entry\": 1, \"entry.222\": \"Bar\", \"Password\": \"x\"}'')) ''222'' =
       Some (JStr ''Bar'')
   \<and> ''222'' \<in> fst ` set (fetch_body_fields True
         (BodyString ''{\"entry\": 1, \"entry.222\": \"Bar\", \"Password\": \"x\"}''))
   \<and> ''Password'' \<notin> fst ` set (fetch_body_fields True
         (BodyString ''{\"entry\": 1, \"entry.222\": \"Bar\", \"Password\": \"x\"}''))
   \<and> map_of (fetch_body_fields True (BodyString ''entry.111=Foo&Password=x'')) =
       map_of [(''111'', JStr ''Foo'')]
   \<and> map_of (fetch_body_fields True (BodyString ''null'')) = map_of [(''null'', JStr [])]
   \<and> ''Password'' \<notin> fst ` set (fetch_body_fields True (BodyString ''entry.111=Foo&Password=x''))
   \<and> wrapped_fetch host_fetch contact_page
       (post_request ''https://example.com/formResponse'' (BodyString ''entry.111=Foo'')) =
       \<lparr> out_timers = [(200, CaptureGoogle), (800, CaptureGoogle), (1500, CaptureGoogle)],
         out_sent =
           [\<lparr> sub_url = ''https://example.com/formResponse'',
              sub_action = ''https://example.com/formResponse'',
              sub_timestamp = now contact_page,
              sub_fields = [(''111'', JStr ''Foo'')],
              sub_title = ''Contact'',
              sub_source = Some ''google-forms'' \<rparr>],
         out_calls =
           [post_request ''https://example.com/formResponse'' (BodyString ''entry.111=Foo'')],
         out_result =
           Inr (host_fetch (post_request ''https://example.com/formResponse''
                  (BodyString ''entry.111=Foo''))) \<rparr>"
proof -
  have pw: "has_password ''Password''" by code_simp
  have kept: "rev (map (\<lambda>(k, v). (k, entry_jsval v))
        (filter (\<lambda>(k, v). \<not> has_password k \<and> k \<noteq> ''__proto__'')
           [(''entry.111'', FormText ''Foo''), (''Password'', FormText ''x''),
            (''__proto__'', FormText ''y'')])) =
      [(''entry.111'', JStr ''Foo'')]" by code_simp
  have texts: "\<forall>(k, v) \<in> set [(''entry.111'', FormText ''Foo''), (''Password'', FormText ''x''),
                                (''__proto__'', FormText ''y'')].
      k = ''__proto__'' \<longrightarrow> (\<exists>str. v = FormText str)" by simp
  from fetch_body_reading[where g = True and entries = "[(''entry.111'', FormText ''Foo''),
      (''Password'', FormText ''x''), (''__proto__'', FormText ''y'')]",
      THEN conjunct2, THEN conjunct1, THEN mp, OF texts]
  obtain read where read: "fetch_body_reading True
       (BodyFormData [(''entry.111'', FormText ''Foo''), (''Password'', FormText ''x''),
                      (''__proto__'', FormText ''y'')]) = Inr read" by blast
  have "map_of read = map_of [(''entry.111'', JStr ''Foo'')]"
    using fetch_body_reading[where g = True and formData = read
        and entries = "[(''entry.111'', FormText ''Foo''), (''Password'', FormText ''x''),
                        (''__proto__'', FormText ''y'')]", THEN conjunct1, THEN mp, OF read]
    unfolding kept .
  moreover have "fetch_body_fields True
       (BodyFormData [(''entry.111'', FormText ''Foo''), (''Password'', FormText ''x''),
                      (''__proto__'', FormText ''y'')]) = read"
    unfolding fetch_body_fields_def read by simp
  ultimately have a: "map_of (fetch_body_fields True
       (BodyFormData [(''entry.111'', FormText ''Foo''), (''Password'', FormText ''x''),
                      (''__proto__'', FormText ''y'')])) =
     map_of [(''entry.111'', JStr ''Foo'')]"
    by simp

  have plain_parse: "JSON_parse ''{\"name\": \"Ann\", \"Password\": \"x\"}'' =
      Some (JObj [(''name'', JStr ''Ann''), (''Password'', JStr ''x'')])" by code_simp
  have plain_members: "own_entries (JObj [(''name'', JStr ''Ann''), (''Password'', JStr ''x'')]) =
      Some [(''name'', JStr ''Ann''), (''Password'', JStr ''x'')]" by code_simp
  have plain_branch: "\<not> uses_entry_branch False
      (BodyString ''{\"name\": \"Ann\", \"Password\": \"x\"}'')" by code_simp
  have plain_kept: "rev (filter (\<lambda>(k, v). \<not> has_password k \<and> k \<noteq> ''__proto__'')
        [(''name'', JStr ''Ann''), (''Password'', JStr ''x'')]) = [(''name'', JStr ''Ann'')]"
    by code_simp
  have b: "map_of (fetch_body_fields False (BodyString ''{\"name\": \"Ann\", \"Password\": \"x\"}'')) =
       map_of [(''name'', JStr ''Ann'')]"
    using fetch_body_reading[where g = False
        and s = "''{\"name\": \"Ann\", \"Password\": \"x\"}''"
        and parsed = "JObj [(''name'', JStr ''Ann''), (''Password'', JStr ''x'')]"
        and members = "[(''name'', JStr ''Ann''), (''Password'', JStr ''x'')]",
        THEN conjunct2, THEN conjunct2, THEN conjunct2, THEN conjunct1, THEN mp,
        OF conjI[OF plain_parse conjI[OF plain_members plain_branch]]]
    unfolding plain_kept .

  have entry_parse: "JSON_parse ''{\"entry\": 1, \"entry.222\": \"Bar\", \"Password\": \"x\"}'' =
      Some (JObj [(''entry'', JNum ''1''), (''entry.222'', JStr ''Bar''), (''Password'', JStr ''x'')])"
    by code_simp
  have entry_members:
    "own_entries (JObj [(''entry'', JNum ''1''), (''entry.222'', JStr ''Bar''),
                        (''Password'', JStr ''x'')]) =
      Some [(''entry'', JNum ''1''), (''entry.222'', JStr ''Bar''), (''Password'', JStr ''x'')]"
    by code_simp
  have entry_branch: "uses_entry_branch True
      (BodyString ''{\"entry\": 1, \"entry.222\": \"Bar\", \"Password\": \"x\"}'')" by code_simp
  note guarded = fetch_body_reading[where g = True
      and s = "''{\"entry\": 1, \"entry.222\": \"Bar\", \"Password\": \"x\"}''"
      and parsed = "JObj [(''entry'', JNum ''1''), (''entry.222'', JStr ''Bar''),
                          (''Password'', JStr ''x'')]"
      and members = "[(''entry'', JNum ''1''), (''entry.222'', JStr ''Bar''),
                      (''Password'', JStr ''x'')]",
      THEN conjunct2, THEN conjunct2, THEN conjunct2, THEN conjunct2, THEN conjunct1, THEN mp,
      OF conjI[OF entry_parse conjI[OF entry_members entry_branch]]]
  have key: "\<not> has_password ''222'' \<and> ''222'' \<noteq> ''__proto__''" by code_simp
  have last: "map_of (rev (map (\<lambda>(key, v). (cleaned_key key, v))
        [(''entry'', JNum ''1''), (''entry.222'', JStr ''Bar''), (''Password'', JStr ''x'')]))
        ''222'' = Some (JStr ''Bar'')" by code_simp
  have c: "map_of (fetch_body_fields True
         (BodyString ''{\"entry\": 1, \"entry.222\": \"Bar\", \"Password\": \"x\"}'')) ''222'' =
       Some (JStr ''Bar'')"
    using guarded[THEN conjunct1, THEN spec, of "''222''", THEN mp, OF key] unfolding last .
  have member: "(''entry.222'', JStr ''Bar'') \<in>
      set [(''entry'', JNum ''1''), (''entry.222'', JStr ''Bar''), (''Password'', JStr ''x'')]"
    by simp
  have named: "startsWith ''entry.222'' ''entry.'' \<and> \<not> has_password ''entry.222'' \<and>
      drop 6 ''entry.222'' \<noteq> ''__proto__''" by code_simp
  have bare: "drop 6 ''entry.222'' = ''222''" by simp
  from guarded[THEN conjunct2, THEN conjunct1, THEN bspec, OF member]
  have "startsWith ''entry.222'' ''entry.'' \<and> \<not> has_password ''entry.222'' \<and>
      drop 6 ''entry.222'' \<noteq> ''__proto__'' \<longrightarrow>
      drop 6 ''entry.222'' \<in> fst ` set (fetch_body_fields True
         (BodyString ''{\"entry\": 1, \"entry.222\": \"Bar\", \"Password\": \"x\"}''))"
    unfolding prod.case .
  from this[THEN mp, OF named]
  have d: "''222'' \<in> fst ` set (fetch_body_fields True
         (BodyString ''{\"entry\": 1, \"entry.222\": \"Bar\", \"Password\": \"x\"}''))"
    unfolding bare .
  have others: "\<forall>(key, v) \<in> set [(''entry'', JNum ''1''), (''entry.222'', JStr ''Bar''),
                                  (''Password'', JStr ''x'')].
      startsWith key ''entry.'' \<or> startsWith key ''entry_'' \<longrightarrow> cleaned_key key \<noteq> ''Password''"
    by code_simp
  have e: "''Password'' \<notin> fst ` set (fetch_body_fields True
         (BodyString ''{\"entry\": 1, \"entry.222\": \"Bar\", \"Password\": \"x\"}''))"
  proof
    assume "''Password'' \<in> fst ` set (fetch_body_fields True
         (BodyString ''{\"entry\": 1, \"entry.222\": \"Bar\", \"Password\": \"x\"}''))"
    from guarded[THEN conjunct2, THEN conjunct2, THEN bspec, OF this, THEN mp, OF others]
    show False using pw by contradiction
  qed

  have no_json: "JSON_parse ''entry.111=Foo&Password=x'' = None" by code_simp
  have params: "rev (map (\<lambda>(k, v). (replace_entry_dot k, JStr v))
        (filter (\<lambda>(k, v). \<not> has_password k \<and> replace_entry_dot k \<noteq> ''__proto__'')
           (URLSearchParams ''entry.111=Foo&Password=x''))) = [(''111'', JStr ''Foo'')]"
    by code_simp
  have f: "map_of (fetch_body_fields True (BodyString ''entry.111=Foo&Password=x'')) =
       map_of [(''111'', JStr ''Foo'')]"
    using fetch_body_reading[where g = True and s = "''entry.111=Foo&Password=x''"
        and parsed = JNull,
        THEN conjunct2, THEN conjunct2, THEN conjunct2, THEN conjunct2, THEN conjunct2,
        THEN conjunct1, THEN mp, OF disjI1[OF no_json]]
    unfolding params .
  have null_json: "JSON_parse ''null'' = Some JNull" by code_simp
  have null_members: "own_entries JNull = None" by code_simp
  have null_params: "rev (map (\<lambda>(k, v). (replace_entry_dot k, JStr v))
        (filter (\<lambda>(k, v). \<not> has_password k \<and> replace_entry_dot k \<noteq> ''__proto__'')
           (URLSearchParams ''null''))) = [(''null'', JStr [])]"
    by code_simp
  have g: "map_of (fetch_body_fields True (BodyString ''null'')) = map_of [(''null'', JStr [])]"
    using fetch_body_reading[where g = True and s = "''null''" and parsed = JNull,
        THEN conjunct2, THEN conjunct2, THEN conjunct2, THEN conjunct2, THEN conjunct2,
        THEN conjunct1, THEN mp, OF disjI2[OF conjI[OF null_json null_members]]]
    unfolding null_params .

  have outside: "\<not> uses_entry_branch True (BodyString ''entry.111=Foo&Password=x'')"
    by code_simp
  have h: "''Password'' \<notin> fst ` set (fetch_body_fields True (BodyString ''entry.111=Foo&Password=x''))"
  proof
    assume "''Password'' \<in> fst ` set (fetch_body_fields True (BodyString ''entry.111=Foo&Password=x''))"
    from fetch_body_reading[where g = True and b = "BodyString ''entry.111=Foo&Password=x''",
        THEN conjunct2, THEN conjunct2, THEN conjunct2, THEN conjunct2, THEN conjunct2,
        THEN conjunct2, THEN conjunct2, THEN conjunct1, THEN mp, OF outside, THEN bspec, OF this]
    show False using pw by contradiction
  qed

  have url: "str_includes ''https://example.com/formResponse'' ''/formResponse''" by code_simp
  have microsoft: "isMicrosoftFormsEndpoint ''https://example.com/formResponse'' = False"
    by code_simp
  have clickup: "isClickUpFormsEndpoint ''https://example.com/formResponse'' = False"
    by code_simp
  have titled: "str_or (title contact_page) ''Untitled Page'' = ''Contact''" by code_simp
  have i: "wrapped_fetch host_fetch contact_page
       (post_request ''https://example.com/formResponse'' (BodyString ''entry.111=Foo'')) =
       \<lparr> out_timers = [(200, CaptureGoogle), (800, CaptureGoogle), (1500, CaptureGoogle)],
         out_sent =
           [\<lparr> sub_url = ''https://example.com/formResponse'',
              sub_action = ''https://example.com/formResponse'',
              sub_timestamp = now contact_page,
              sub_fields = [(''111'', JStr ''Foo'')],
              sub_title = ''Contact'',
              sub_source = Some ''google-forms'' \<rparr>],
         out_calls =
           [post_request ''https://example.com/formResponse'' (BodyString ''entry.111=Foo'')],
         out_result =
           Inr (host_fetch (post_request ''https://example.com/formResponse''
                  (BodyString ''entry.111=Foo''))) \<rparr>"
    using fetch_body_reading[where urlStr = "''https://example.com/formResponse''"
        and originalFetch = host_fetch and pg = contact_page,
        THEN conjunct2, THEN conjunct2, THEN conjunct2, THEN conjunct2, THEN conjunct2,
        THEN conjunct2, THEN conjunct2, THEN conjunct2, THEN mp, OF url]
    unfolding microsoft clickup titled by (simp only: if_False append_Nil2)
  from a b c d e f g h i show ?thesis by (intro conjI)
qed

subsection \<open>The claims about the fields and the source of a submission\<close>

text \<open>
  C5 as stated fails: the interceptor stores the values of a body as they are sent, so an
  empty parameter \<open>phone=\<close> reaches the submission as an empty string.
\<close>

theorem fields_nonempty_counterexample:
  "map sub_fields
     (out_sent (wrapped_fetch host_fetch contact_page
        (post_request ''https://example.com/api/contact'' (BodyString ''name=Ann&phone='')))) =
     [[(''name'', JStr ''Ann''), (''phone'', JStr [])]]"
  by code_simp

text \<open>
  C5, amended: in every mapping the generic extractor builds from a form, and so in every
  submission of the native submit path, and in every mapping the last-resort pass of a
  provider capture builds from the inputs of the document, no value is the empty string or
  undefined, and no element of an accumulated array is: each value is a non-empty string, or
  a non-empty array none of whose elements is falsy. (The first element of such an array can
  be a function that the name of the control finds on the prototype of the mapping, as for
  a control named \<open>constructor\<close>.)
\<close>

theorem generic_fields_nonempty:
  "(\<forall>(k, v) \<in> set (extractFormData form).
      stored_value v \<and> v \<noteq> JStr [] \<and> v \<noteq> JUndefined \<and>
      (\<forall>xs. v = JArr xs \<longrightarrow> JStr [] \<notin> set xs \<and> JUndefined \<notin> set xs))
   \<and> (\<forall>s \<in> set (captureFormSubmission pg frm). \<forall>(k, v) \<in> set (sub_fields s).
      stored_value v \<and> v \<noteq> JStr [] \<and> v \<noteq> JUndefined \<and>
      (\<forall>xs. v = JArr xs \<longrightarrow> JStr [] \<notin> set xs \<and> JUndefined \<notin> set xs))
   \<and> (\<forall>(k, v) \<in> set (foldl google_last_resort_step [] inputs).
      stored_value v \<and> v \<noteq> JStr [] \<and> v \<noteq> JUndefined)
   \<and> (\<forall>(k, v) \<in> set (foldl clickup_last_resort_step [] inputs).
      stored_value v \<and> v \<noteq> JStr [] \<and> v \<noteq> JUndefined)"
proof (intro conjI ballI)
  fix kv
  assume "kv \<in> set (extractFormData form)"
  then have "stored_value (snd kv)"
    using extractFormData_stored[of "fst kv" "snd kv" form] by simp
  then show "case kv of (k, v) \<Rightarrow>
      stored_value v \<and> v \<noteq> JStr [] \<and> v \<noteq> JUndefined \<and>
      (\<forall>xs. v = JArr xs \<longrightarrow> JStr [] \<notin> set xs \<and> JUndefined \<notin> set xs)"
    using stored_value_defined[of "snd kv"] by (simp add: case_prod_beta)
next
  fix s kv
  assume s: "s \<in> set (captureFormSubmission pg frm)" and kv: "kv \<in> set (sub_fields s)"
  from s have "sub_fields s = extractFormData (form_elements frm)"
    by (auto simp: captureFormSubmission_def Let_def split: if_splits)
  then have "kv \<in> set (extractFormData (form_elements frm))" using kv by simp
  then have "stored_value (snd kv)"
    using extractFormData_stored[of "fst kv" "snd kv" "form_elements frm"] by simp
  then show "case kv of (k, v) \<Rightarrow>
      stored_value v \<and> v \<noteq> JStr [] \<and> v \<noteq> JUndefined \<and>
      (\<forall>xs. v = JArr xs \<longrightarrow> JStr [] \<notin> set xs \<and> JUndefined \<notin> set xs)"
    using stored_value_defined[of "snd kv"] by (simp add: case_prod_beta)
next
  fix kv
  assume "kv \<in> set (foldl google_last_resort_step [] inputs)"
  then have "stored_value (snd kv)"
    using google_last_resort_stored[of "[]" inputs] by auto
  then show "case kv of (k, v) \<Rightarrow> stored_value v \<and> v \<noteq> JStr [] \<and> v \<noteq> JUndefined"
    using stored_value_defined[of "snd kv"] by (simp add: case_prod_beta)
next
  fix kv
  assume "kv \<in> set (foldl clickup_last_resort_step [] inputs)"
  then have "stored_value (snd kv)"
    using clickup_last_resort_stored[of "[]" inputs] by auto
  then show "case kv of (k, v) \<Rightarrow> stored_value v \<and> v \<noteq> JStr [] \<and> v \<noteq> JUndefined"
    using stored_value_defined[of "snd kv"] by (simp add: case_prod_beta)
qed

theorem generic_fields_nonempty_witness:
  "extractFormData [constructor_control, email_control, email_control] =
     [(''constructor'', JArr [JBuiltin ''Object.prototype.constructor'', JStr ''x'']),
      (''email'', JArr [JStr ''a@b.com'', JStr ''a@b.com''])]
   \<and> stored_value (JArr [JBuiltin ''Object.prototype.constructor'', JStr ''x''])
   \<and> stored_value (JArr [JStr ''a@b.com'', JStr ''a@b.com''])
   \<and> map sub_fields (captureFormSubmission contact_page contact_form) =
       [[(''email'', JStr ''a@b.com'')]]
   \<and> stored_value (JStr ''a@b.com'')
   \<and> foldl google_last_resort_step [] [blank_input, named_input] = [(''q2'', JStr ''Ann'')]
   \<and> foldl clickup_last_resort_step [] [blank_input, named_input] = [(''q2'', JStr ''Ann'')]
   \<and> stored_value (JStr ''Ann'')
   \<and> JStr [] \<notin> set [JBuiltin ''Object.prototype.constructor'', JStr ''x'']
   \<and> JUndefined \<notin> set [JBuiltin ''Object.prototype.constructor'', JStr ''x'']"
proof -
  have fields: "extractFormData [constructor_control, email_control, email_control] =
     [(''constructor'', JArr [JBuiltin ''Object.prototype.constructor'', JStr ''x'']),
      (''email'', JArr [JStr ''a@b.com'', JStr ''a@b.com''])]" by code_simp
  have sent: "captureFormSubmission contact_page contact_form =
      [\<lparr> sub_url = ''https://example.com/contact'', sub_action = ''https://example.com/send'',
         sub_timestamp = ''2024-01-01T00:00:00.000Z'',
         sub_fields = [(''email'', JStr ''a@b.com'')], sub_title = ''Contact'',
         sub_source = None \<rparr>]" by code_simp
  have google: "foldl google_last_resort_step [] [blank_input, named_input] =
      [(''q2'', JStr ''Ann'')]" by code_simp
  have clickup: "foldl clickup_last_resort_step [] [blank_input, named_input] =
      [(''q2'', JStr ''Ann'')]" by code_simp
  note inst = generic_fields_nonempty[of "[constructor_control, email_control, email_control]"
      contact_page contact_form "[blank_input, named_input]"]
  have first: "stored_value (JArr [JBuiltin ''Object.prototype.constructor'', JStr ''x''])"
    using inst[THEN conjunct1] unfolding fields by simp
  have second: "stored_value (JArr [JStr ''a@b.com'', JStr ''a@b.com''])"
    using inst[THEN conjunct1] unfolding fields by simp
  have third: "stored_value (JStr ''a@b.com'')"
    using inst[THEN conjunct2, THEN conjunct1] unfolding sent by simp
  have fourth: "stored_value (JStr ''Ann'')"
    using inst[THEN conjunct2, THEN conjunct2, THEN conjunct1] unfolding google by simp
  have fifth: "stored_value (JStr ''Ann'')"
    using inst[THEN conjunct2, THEN conjunct2, THEN conjunct2] unfolding clickup by simp
  have sixth: "JStr [] \<notin> set [JBuiltin ''Object.prototype.constructor'', JStr ''x''] \<and>
      JUndefined \<notin> set [JBuiltin ''Object.prototype.constructor'', JStr ''x'']"
    using inst[THEN conjunct1] unfolding fields by simp
  show ?thesis using fields sent google clickup first second third fourth fifth sixth by simp
qed

text \<open>
  C8 as stated fails: a call to a URL that matches no provider endpoint is sent with the
  source \<open>fetch\<close>; the value \<open>fetch-generic\<close> does not occur in the script.
\<close>

theorem fetch_source_counterexample:
  "\<not> isGoogleFormsEndpoint ''https://example.com/api/contact''
   \<and> \<not> isMicrosoftFormsEndpoint ''https://example.com/api/contact''
   \<and> \<not> isClickUpFormsEndpoint ''https://example.com/api/contact''
   \<and> map sub_source
       (out_sent (wrapped_fetch host_fetch contact_page
          (post_request ''https://example.com/api/contact'' (BodyString ''name=Ann'')))) =
       [Some ''fetch'']"
  by code_simp

text \<open>
  C8, amended: for every intercepted \<^verbatim>\<open>fetch\<close> call with method POST or PUT whose body
  yields a non-empty field mapping, exactly one submission is built directly from the call;
  its source is \<open>google-forms\<close> when the URL matches a Google Forms endpoint, else
  \<open>microsoft-forms\<close> when it matches a Microsoft Forms endpoint, else \<open>clickup-forms\<close>
  when it matches a ClickUp Forms endpoint, and \<open>fetch\<close> when it matches none. The
  submission that a timer of the wrapped \<^verbatim>\<open>send\<close> builds belongs to a URL that matches a
  provider endpoint; its source is \<open>microsoft-forms\<close> when the URL matches a Microsoft
  Forms endpoint, else \<open>clickup-forms\<close> when it matches a ClickUp Forms endpoint, else
  \<open>google-forms\<close>.
\<close>

theorem fetch_submission_source:
  "(opt_method opts = JStr m \<and> (toUpperCase m = ''POST'' \<or> toUpperCase m = ''PUT'') \<and>
    opt_body opts = Some b \<and> body_truthy b \<and> url_toString url = Inr urlStr \<and>
    fetch_body_fields (isGoogleFormsEndpoint urlStr) b \<noteq> [] \<longrightarrow>
      map sub_source (out_sent (wrapped_fetch originalFetch pg (url, Some opts))) =
        [Some (if isGoogleFormsEndpoint urlStr then ''google-forms''
               else if isMicrosoftFormsEndpoint urlStr then ''microsoft-forms''
               else if isClickUpFormsEndpoint urlStr then ''clickup-forms''
               else ''fetch'')])
   \<and> (\<forall>(delay, t) \<in> set (out_timers (wrapped_send originalSend this data)).
        \<forall>target formData ms cu. t = SendNetworkSubmission target formData ms cu \<longrightarrow>
          (isGoogleFormsEndpoint target \<or> isMicrosoftFormsEndpoint target \<or>
           isClickUpFormsEndpoint target) \<and>
          map sub_source (run_task doc t) =
            [Some (if isMicrosoftFormsEndpoint target then ''microsoft-forms''
                   else if isClickUpFormsEndpoint target then ''clickup-forms''
                   else ''google-forms'')])"
proof (intro conjI impI)
  assume a: "opt_method opts = JStr m \<and> (toUpperCase m = ''POST'' \<or> toUpperCase m = ''PUT'') \<and>
    opt_body opts = Some b \<and> body_truthy b \<and> url_toString url = Inr urlStr \<and>
    fetch_body_fields (isGoogleFormsEndpoint urlStr) b \<noteq> []"
  then have m: "m \<noteq> []" by (auto simp: toUpperCase_def)
  have obs: "\<exists>timers s. fetch_observe pg url b = Inr (timers, [s]) \<and>
        sub_source s = Some (fetch_source (isGoogleFormsEndpoint urlStr)
          (isMicrosoftFormsEndpoint urlStr) (isClickUpFormsEndpoint urlStr))"
    using a fetch_body_fields_nonempty[of "isGoogleFormsEndpoint urlStr" b]
    by (simp add: fetch_observe_def Let_def Object_keys_empty)
  then obtain timers s where ts: "fetch_observe pg url b = Inr (timers, [s])"
    "sub_source s = Some (fetch_source (isGoogleFormsEndpoint urlStr)
          (isMicrosoftFormsEndpoint urlStr) (isClickUpFormsEndpoint urlStr))" by blast
  have "out_sent (wrapped_fetch originalFetch pg (url, Some opts)) = [s]"
    using a m ts(1) by (auto simp: wrapped_fetch_def method_toUpperCase_def Let_def)
  then show "map sub_source (out_sent (wrapped_fetch originalFetch pg (url, Some opts))) =
       [Some (if isGoogleFormsEndpoint urlStr then ''google-forms''
              else if isMicrosoftFormsEndpoint urlStr then ''microsoft-forms''
              else if isClickUpFormsEndpoint urlStr then ''clickup-forms''
              else ''fetch'')]"
    using ts(2) by (simp add: fetch_source_def)
next
  show "\<forall>(delay, t) \<in> set (out_timers (wrapped_send originalSend this data)).
        \<forall>target formData ms cu. t = SendNetworkSubmission target formData ms cu \<longrightarrow>
          (isGoogleFormsEndpoint target \<or> isMicrosoftFormsEndpoint target \<or>
           isClickUpFormsEndpoint target) \<and>
          map sub_source (run_task doc t) =
            [Some (if isMicrosoftFormsEndpoint target then ''microsoft-forms''
                   else if isClickUpFormsEndpoint target then ''clickup-forms''
                   else ''google-forms'')]"
    by (rule xhr_source)
qed

theorem fetch_submission_source_witness:
  "map sub_source
     (out_sent (wrapped_fetch host_fetch contact_page
        (UrlString ''https://forms.office.com/api/form/1'',
         Some \<lparr> opt_method = JStr ''put'', opt_body = Some (BodyString ''q1=yes'') \<rparr>))) =
     [Some ''microsoft-forms'']
   \<and> (200, SendNetworkSubmission ''https://forms.office.com/api/Response''
              [(''q1'', JStr ''yes'')] True False)
       \<in> set (out_timers (wrapped_send host_send office_request (Some (BodyString ''q1=yes''))))
   \<and> map sub_source
       (run_task late_document
          (SendNetworkSubmission ''https://forms.office.com/api/Response''
             [(''q1'', JStr ''yes'')] True False)) =
       [Some ''microsoft-forms'']"
proof -
  have up: "toUpperCase ''put'' = ''PUT''" by code_simp
  have g: "isGoogleFormsEndpoint ''https://forms.office.com/api/form/1'' = False" by code_simp
  have ms: "isMicrosoftFormsEndpoint ''https://forms.office.com/api/form/1'' = True" by code_simp
  have fd: "fetch_body_fields False (BodyString ''q1=yes'') \<noteq> []" by code_simp
  have timer: "(200, SendNetworkSubmission ''https://forms.office.com/api/Response''
              [(''q1'', JStr ''yes'')] True False)
       \<in> set (out_timers (wrapped_send host_send office_request (Some (BodyString ''q1=yes''))))"
    by code_simp
  have office: "isMicrosoftFormsEndpoint ''https://forms.office.com/api/Response'' = True"
    by code_simp
  have hyp: "opt_method \<lparr> opt_method = JStr ''put'', opt_body = Some (BodyString ''q1=yes'') \<rparr> =
      JStr ''put'' \<and>
    (toUpperCase ''put'' = ''POST'' \<or> toUpperCase ''put'' = ''PUT'') \<and>
    opt_body \<lparr> opt_method = JStr ''put'', opt_body = Some (BodyString ''q1=yes'') \<rparr> =
      Some (BodyString ''q1=yes'') \<and>
    body_truthy (BodyString ''q1=yes'') \<and>
    url_toString (UrlString ''https://forms.office.com/api/form/1'') =
      Inr ''https://forms.office.com/api/form/1'' \<and>
    fetch_body_fields (isGoogleFormsEndpoint ''https://forms.office.com/api/form/1'')
      (BodyString ''q1=yes'') \<noteq> []"
    unfolding g up using fd by (simp add: body_truthy_def url_toString_def)
  note inst = fetch_submission_source[of
      "\<lparr> opt_method = JStr ''put'', opt_body = Some (BodyString ''q1=yes'') \<rparr>"
      "''put''" "BodyString ''q1=yes''" "UrlString ''https://forms.office.com/api/form/1''"
      "''https://forms.office.com/api/form/1''" host_fetch contact_page
      host_send office_request "Some (BodyString ''q1=yes'')" late_document]
  have first: "map sub_source
     (out_sent (wrapped_fetch host_fetch contact_page
        (UrlString ''https://forms.office.com/api/form/1'',
         Some \<lparr> opt_method = JStr ''put'', opt_body = Some (BodyString ''q1=yes'') \<rparr>))) =
     [Some ''microsoft-forms'']"
    using inst[THEN conjunct1, THEN mp, OF hyp] unfolding g ms by (simp only: if_False if_True)
  from inst[THEN conjunct2, THEN bspec, OF timer]
  have "\<forall>target formData ms cu.
      SendNetworkSubmission ''https://forms.office.com/api/Response''
        [(''q1'', JStr ''yes'')] True False = SendNetworkSubmission target formData ms cu \<longrightarrow>
      (isGoogleFormsEndpoint target \<or> isMicrosoftFormsEndpoint target \<or>
       isClickUpFormsEndpoint target) \<and>
      map sub_source
        (run_task late_document
           (SendNetworkSubmission ''https://forms.office.com/api/Response''
              [(''q1'', JStr ''yes'')] True False)) =
        [Some (if isMicrosoftFormsEndpoint target then ''microsoft-forms''
               else if isClickUpFormsEndpoint target then ''clickup-forms''
               else ''google-forms'')]"
    unfolding prod.case .
  from this[rule_format, of "''https://forms.office.com/api/Response''"
      "[(''q1'', JStr ''yes'')]" True False, OF refl, THEN conjunct2]
  have "map sub_source
        (run_task late_document
           (SendNetworkSubmission ''https://forms.office.com/api/Response''
              [(''q1'', JStr ''yes'')] True False)) =
        [Some (if isMicrosoftFormsEndpoint ''https://forms.office.com/api/Response''
               then ''microsoft-forms''
               else if isClickUpFormsEndpoint ''https://forms.office.com/api/Response''
               then ''clickup-forms''
               else ''google-forms'')]" .
  then have second: "map sub_source
       (run_task late_document
          (SendNetworkSubmission ''https://forms.office.com/api/Response''
             [(''q1'', JStr ''yes'')] True False)) =
       [Some ''microsoft-forms'']"
    unfolding office by (simp only: if_True)
  from first timer second show ?thesis by (intro conjI)
qed

text \<open>
  C10: every submission handed to \<^verbatim>\<open>safeSendMessage\<close> has at least one field, at each of
  the dispatch sites: the native submit handler, the three provider captures, the wrapped
  \<^verbatim>\<open>fetch\<close> and the tasks of the timers it sets, and the tasks of the timers the wrapped
  \<^verbatim>\<open>send\<close> sets (\<^verbatim>\<open>send\<close> itself sends nothing at once).
\<close>

theorem dispatched_fields_nonempty:
  "(\<forall>s \<in> set (captureFormSubmission pg frm). sub_fields s \<noteq> [])
   \<and> (\<forall>s \<in> set (cap_sent (captureGoogleFormSubmission doc)). sub_fields s \<noteq> [])
   \<and> (\<forall>s \<in> set (cap_sent (captureMicrosoftFormSubmission doc)). sub_fields s \<noteq> [])
   \<and> (\<forall>s \<in> set (cap_sent (captureClickUpFormSubmission doc)). sub_fields s \<noteq> [])
   \<and> (\<forall>s \<in> set (out_sent (wrapped_fetch originalFetch pg args)). sub_fields s \<noteq> [])
   \<and> (\<forall>(delay, t) \<in> set (out_timers (wrapped_fetch originalFetch pg args)).
         \<forall>s \<in> set (run_task doc t). sub_fields s \<noteq> [])
   \<and> out_sent (wrapped_send originalSend this data) = []
   \<and> (\<forall>(delay, t) \<in> set (out_timers (wrapped_send originalSend this data)).
         \<forall>s \<in> set (run_task doc t). sub_fields s \<noteq> [])"
proof (intro conjI ballI)
  fix s assume "s \<in> set (captureFormSubmission pg frm)"
  then show "sub_fields s \<noteq> []" by (rule native_sent_nonempty)
next
  fix s assume "s \<in> set (cap_sent (captureGoogleFormSubmission doc))"
  then show "sub_fields s \<noteq> []" by (rule google_sent_nonempty)
next
  fix s assume "s \<in> set (cap_sent (captureMicrosoftFormSubmission doc))"
  then show "sub_fields s \<noteq> []" by (rule microsoft_sent_nonempty)
next
  fix s assume "s \<in> set (cap_sent (captureClickUpFormSubmission doc))"
  then show "sub_fields s \<noteq> []" by (rule clickup_sent_nonempty)
next
  fix s assume "s \<in> set (out_sent (wrapped_fetch originalFetch pg args))"
  then show "sub_fields s \<noteq> []" by (rule wrapped_fetch_sent_nonempty)
next
  fix dt
  assume dt: "dt \<in> set (out_timers (wrapped_fetch originalFetch pg args))"
  show "case dt of (delay, t) \<Rightarrow> \<forall>s \<in> set (run_task doc t). sub_fields s \<noteq> []"
  proof (cases dt)
    case (Pair delay t)
    then have "t = CaptureGoogle \<or> t = CaptureMicrosoft \<or> t = CaptureClickUp"
      using dt wrapped_fetch_timers by blast
    then show ?thesis using Pair run_task_nonempty[of t _ doc] by auto
  qed
next
  show "out_sent (wrapped_send originalSend this data) = []" by (rule wrapped_send_sent)
next
  fix dt
  assume dt: "dt \<in> set (out_timers (wrapped_send originalSend this data))"
  show "case dt of (delay, t) \<Rightarrow> \<forall>s \<in> set (run_task doc t). sub_fields s \<noteq> []"
  proof (cases dt)
    case (Pair delay t)
    then have "t = CaptureMicrosoft \<or> t = CaptureClickUp \<or>
       (\<exists>urlStr formData ms cu. t = SendNetworkSubmission urlStr formData ms cu \<and> formData \<noteq> [])"
      using dt wrapped_send_timers by blast
    then show ?thesis using Pair run_task_nonempty[of t _ doc] by auto
  qed
qed

theorem dispatched_fields_nonempty_witness:
  "map sub_fields (captureFormSubmission contact_page contact_form) = [[(''email'', JStr ''a@b.com'')]]
   \<and> map sub_fields (cap_sent (captureGoogleFormSubmission late_document)) =
       [[(''Your name'', JStr ''Ann'')]]
   \<and> out_timers (wrapped_send host_send office_request (Some (BodyString ''q1=yes''))) =
       [(200, SendNetworkSubmission ''https://forms.office.com/api/Response''
                [(''q1'', JStr ''yes'')] True False),
        (300, CaptureMicrosoft)]
   \<and> map sub_fields
       (run_task late_document
          (SendNetworkSubmission ''https://forms.office.com/api/Response''
             [(''q1'', JStr ''yes'')] True False)) \<noteq> [[]]"
proof -
  have native: "map sub_fields (captureFormSubmission contact_page contact_form) =
      [[(''email'', JStr ''a@b.com'')]]" by code_simp
  have google: "map sub_fields (cap_sent (captureGoogleFormSubmission late_document)) =
       [[(''Your name'', JStr ''Ann'')]]" by code_simp
  have timers: "out_timers (wrapped_send host_send office_request (Some (BodyString ''q1=yes''))) =
       [(200, SendNetworkSubmission ''https://forms.office.com/api/Response''
                [(''q1'', JStr ''yes'')] True False),
        (300, CaptureMicrosoft)]" by code_simp
  have run: "run_task late_document
          (SendNetworkSubmission ''https://forms.office.com/api/Response''
             [(''q1'', JStr ''yes'')] True False) =
        [network_submission google_page ''https://forms.office.com/api/Response''
           [(''q1'', JStr ''yes'')] True False]"
    by (simp add: run_task_def late_document_def)
  show ?thesis
    using dispatched_fields_nonempty[of contact_page contact_form late_document host_fetch
        "post_request ''https://example.com/api/contact'' (BodyString ''name=Ann'')"
        host_send office_request "Some (BodyString ''q1=yes'')"]
      native google timers run
    by auto
qed

end
